theory Spec2Isabelle
  imports Complex_Main
begin

section \<open>Python values, errors and containers\<close>

text \<open>
  The geometry importer (\<^verbatim>\<open>ydr/import_cwxml/geometry.py\<close>) is embedded function by
  function. Exceptions are values: a computation that can raise returns \<open>error + 'a\<close>,
  with \<open>Inl\<close> for the exception. The source defines no exception class of its own; the
  only exceptions the embedded functions can raise are Python's built-in ones, the
  \<^verbatim>\<open>ValueError\<close> of the vector constructor among them. \<open>FloatKey\<close> is no
  exception of Python's: it marks where the model stops short of the code, at a float
  read as a bone index.
\<close>

datatype error = AttributeError | IndexError | ValueError | FloatKey

text \<open>
  A vertex record is a named tuple whose field set depends on the layout of the vertex
  buffer. It is modelled by its \<^verbatim>\<open>_asdict().items()\<close>: the list of (field name, value)
  pairs in declaration order. A field value is a tuple of numbers: integers (bytes such as
  blend weights, blend indices and colours) or floats. Floats are modelled by
  rationals, so \<^verbatim>\<open>/ 255\<close> is exact division; rounding is not modelled.
\<close>

datatype fval = FloatTuple "rat list" | IntTuple "int list"

type_synonym vertex = "(string \<times> fval) list"

definition hasattr :: "vertex \<Rightarrow> string \<Rightarrow> bool" where
  "hasattr vertex attr = (map_of vertex attr \<noteq> None)"

definition getattr :: "vertex \<Rightarrow> string \<Rightarrow> error + fval" where
  "getattr vertex attr =
     (case map_of vertex attr of None \<Rightarrow> Inl AttributeError | Some val \<Rightarrow> Inr val)"

text \<open>\<^verbatim>\<open>xs[i]\<close> for a non-negative \<open>i\<close>: IndexError out of range.\<close>

definition subscript :: "'a list \<Rightarrow> nat \<Rightarrow> error + 'a" where
  "subscript xs i = (if i < length xs then Inr (xs ! i) else Inl IndexError)"

text \<open>\<^verbatim>\<open>xs[i]\<close> for any integer \<open>i\<close>: a negative index counts from the end.\<close>

definition py_index :: "'a list \<Rightarrow> int \<Rightarrow> error + 'a" where
  "py_index xs i =
     (if 0 \<le> i \<and> i < int (length xs) then Inr (xs ! nat i)
      else if i < 0 \<and> - int (length xs) \<le> i then Inr (xs ! nat (int (length xs) + i))
      else Inl IndexError)"

text \<open>\<^verbatim>\<open>vertex.blendweights[i] / 255\<close>\<close>

fun blend_weight :: "fval \<Rightarrow> nat \<Rightarrow> error + rat" where
  "blend_weight (IntTuple bs) i =
     (case subscript bs i of Inl e \<Rightarrow> Inl e | Inr b \<Rightarrow> Inr (of_int b / 255))"
| "blend_weight (FloatTuple fs) i =
     (case subscript fs i of Inl e \<Rightarrow> Inl e | Inr f \<Rightarrow> Inr (f / 255))"

text \<open>
  \<^verbatim>\<open>vertex.blendindices[i]\<close>. The source declares the keys of \<^verbatim>\<open>vertex_groups\<close> as
  \<^verbatim>\<open>int\<close> and later uses them as list indices, and the bone indices of the format
  are integers. On integer blend indices the model is exact. A float blend index the code
  would store as a key like any other; the model has integer keys only and ends there
  with \<open>FloatKey\<close>, so that nothing proved of a returned result covers such a buffer.
\<close>

fun blend_index :: "fval \<Rightarrow> nat \<Rightarrow> error + int" where
  "blend_index (IntTuple bs) i = subscript bs i"
| "blend_index (FloatTuple fs) i =
     (case subscript fs i of Inl e \<Rightarrow> Inl e | Inr f \<Rightarrow> Inl FloatKey)"

text \<open>The components of a tuple, as floats.\<close>

fun components :: "fval \<Rightarrow> rat list" where
  "components (FloatTuple fs) = fs"
| "components (IntTuple bs) = map of_int bs"

text \<open>
  \<^verbatim>\<open>mathutils.Vector(seq)\<close>: a vector has at least two components, and the
  constructor raises \<^verbatim>\<open>ValueError\<close> for a shorter sequence. The vector holds the
  components as floats; the host stores them in single precision, and that rounding is
  not modelled.
\<close>

definition Vector :: "fval \<Rightarrow> error + rat list" where
  "Vector seq = (if length (components seq) < 2 then Inl ValueError else Inr (components seq))"

text \<open>\<^verbatim>\<open>sub in s\<close> on strings.\<close>

fun startswith :: "'a list \<Rightarrow> 'a list \<Rightarrow> bool" where
  "startswith s [] = True"
| "startswith [] (p # ps) = False"
| "startswith (c # s) (p # ps) = (c = p \<and> startswith s ps)"

fun str_contains :: "'a list \<Rightarrow> 'a list \<Rightarrow> bool" where
  "str_contains [] sub = (sub = [])"
| "str_contains (c # s) sub = (startswith (c # s) sub \<or> str_contains s sub)"

text \<open>\<^verbatim>\<open>str(n)\<close> for an integer, as an f-string renders it.\<close>

definition digit_char :: "nat \<Rightarrow> char" where
  "digit_char d = ''0123456789'' ! d"

function str_nat :: "nat \<Rightarrow> string" where
  "str_nat n = (if n < 10 then [digit_char n] else str_nat (n div 10) @ [digit_char (n mod 10)])"
  by pat_completeness auto
termination
  by (relation "measure (\<lambda>n. n)") auto

definition str_int :: "int \<Rightarrow> string" where
  "str_int i = (if i < 0 then CHR ''-'' # str_nat (nat (- i)) else str_nat (nat i))"

text \<open>
  A Python dict keeps its keys in insertion order: it is an association list with
  distinct keys, \<^verbatim>\<open>keys()\<close> and \<^verbatim>\<open>values()\<close> being its two projections.
\<close>

type_synonym ('k, 'v) dict = "('k \<times> 'v) list"

definition dict_keys :: "('k, 'v) dict \<Rightarrow> 'k list" where
  "dict_keys d = map fst d"

definition dict_values :: "('k, 'v) dict \<Rightarrow> 'v list" where
  "dict_values d = map snd d"

definition dict_contains :: "('k, 'v) dict \<Rightarrow> 'k \<Rightarrow> bool" where
  "dict_contains d k = (k \<in> set (dict_keys d))"

text \<open>\<^verbatim>\<open>d[k] = v\<close>: a new key goes to the end, an old key keeps its place.\<close>

definition dict_setitem :: "('k, 'v) dict \<Rightarrow> 'k \<Rightarrow> 'v \<Rightarrow> ('k, 'v) dict" where
  "dict_setitem d k v =
     (if dict_contains d k then map (\<lambda>(k', v'). if k' = k then (k', v) else (k', v')) d
      else d @ [(k, v)])"

text \<open>\<^verbatim>\<open>d[k].append(x)\<close> for a key that is present.\<close>

definition dict_item_append :: "('k, 'v list) dict \<Rightarrow> 'k \<Rightarrow> 'v \<Rightarrow> ('k, 'v list) dict" where
  "dict_item_append d k x = map (\<lambda>(k', xs). if k' = k then (k', xs @ [x]) else (k', xs)) d"

text \<open>
  The idiom used three times in \<^verbatim>\<open>get_vertex_components\<close>:
  \<^verbatim>\<open>if k not in d: d[k] = []\<close> followed by \<^verbatim>\<open>d[k].append(x)\<close>.
\<close>

definition group_append :: "('k, 'v list) dict \<Rightarrow> 'k \<Rightarrow> 'v \<Rightarrow> ('k, 'v list) dict" where
  "group_append d k x =
     dict_item_append (if \<not> dict_contains d k then dict_setitem d k [] else d) k x"

section \<open>Vertex components\<close>

record vertex_components =
  positions :: "fval list"
  normals :: "rat list list"
  uv_map :: "(string, fval list) dict"
  color_map :: "(string, fval list) dict"
  vertex_groups :: "(int, (nat \<times> rat) list) dict"

text \<open>The body of \<^verbatim>\<open>for i in range(0, 4)\<close>, over the remaining slots.\<close>

fun blend_loop ::
  "nat list \<Rightarrow> nat \<Rightarrow> vertex \<Rightarrow> (int, (nat \<times> rat) list) dict
     \<Rightarrow> error + (int, (nat \<times> rat) list) dict" where
  "blend_loop [] vertex_index vertex groups = Inr groups"
| "blend_loop (i # slots) vertex_index vertex groups =
     (case getattr vertex ''blendweights'' of Inl e \<Rightarrow> Inl e | Inr bw \<Rightarrow>
      case blend_weight bw i of Inl e \<Rightarrow> Inl e | Inr weight \<Rightarrow>
      case getattr vertex ''blendindices'' of Inl e \<Rightarrow> Inl e | Inr bi \<Rightarrow>
      case blend_index bi i of Inl e \<Rightarrow> Inl e | Inr bone_index \<Rightarrow>
        blend_loop slots vertex_index vertex
          (group_append groups bone_index (vertex_index, weight)))"

text \<open>
  \<^verbatim>\<open>for key, value in vertex._asdict().items()\<close>; \<^verbatim>\<open>tuple(value)\<close> keeps the
  components of the value.
\<close>

fun fields_loop ::
  "(string \<times> fval) list \<Rightarrow> (string, fval list) dict \<times> (string, fval list) dict
     \<Rightarrow> (string, fval list) dict \<times> (string, fval list) dict" where
  "fields_loop [] (uv, col) = (uv, col)"
| "fields_loop ((key, val) # items) (uv, col) =
     fields_loop items
       (if str_contains key ''texcoord'' then group_append uv key val else uv,
        if str_contains key ''colour'' then group_append col key val else col)"

text \<open>One iteration of \<^verbatim>\<open>for vertex_index, vertex in enumerate(vertices)\<close>.\<close>

definition vertex_step :: "nat \<Rightarrow> vertex \<Rightarrow> vertex_components \<Rightarrow> error + vertex_components" where
  "vertex_step vertex_index vertex vc =
     (case getattr vertex ''position'' of Inl e \<Rightarrow> Inl e | Inr pos \<Rightarrow>
      case (if hasattr vertex ''normal''
            then (case getattr vertex ''normal'' of Inl e \<Rightarrow> Inl e
                  | Inr n \<Rightarrow>
                      (case Vector n of Inl e \<Rightarrow> Inl e
                       | Inr nv \<Rightarrow> Inr (normals vc @ [nv])))
            else Inr (normals vc)) of Inl e \<Rightarrow> Inl e | Inr normals' \<Rightarrow>
      case (if hasattr vertex ''blendweights''
            then blend_loop [0, 1, 2, 3] vertex_index vertex (vertex_groups vc)
            else Inr (vertex_groups vc)) of Inl e \<Rightarrow> Inl e | Inr groups' \<Rightarrow>
      case fields_loop vertex (uv_map vc, color_map vc) of (uv', col') \<Rightarrow>
        Inr \<lparr>positions = positions vc @ [pos], normals = normals',
             uv_map = uv', color_map = col', vertex_groups = groups'\<rparr>)"

fun vertices_loop :: "nat \<Rightarrow> vertex list \<Rightarrow> vertex_components \<Rightarrow> error + vertex_components" where
  "vertices_loop vertex_index [] vc = Inr vc"
| "vertices_loop vertex_index (vertex # rest) vc =
     (case vertex_step vertex_index vertex vc of Inl e \<Rightarrow> Inl e
      | Inr vc' \<Rightarrow> vertices_loop (Suc vertex_index) rest vc')"

definition get_vertex_components :: "vertex list \<Rightarrow> error + vertex_components" where
  "get_vertex_components vertices =
     vertices_loop 0 vertices
       \<lparr>positions = [], normals = [], uv_map = [], color_map = [], vertex_groups = []\<rparr>"

section \<open>The geometry converter\<close>

text \<open>
  \<^verbatim>\<open>GeometryItem\<close>, the parsed geometry: the fields the converter reads.
\<close>

record geometry_item =
  vertex_buffer :: "vertex list"
  index_buffer :: "int list"
  shader_index :: int
  bone_ids :: "int list"

record bone_item =
  name :: string

text \<open>
  The host's mesh data-block, as far as \<^verbatim>\<open>create_material\<close> reads and writes it: the
  text the host prints for the mesh and its material slots.
\<close>

record 'm mesh =
  mesh_repr :: string
  materials :: "'m list"

datatype report_type = WARNING

type_synonym report = "report_type \<times> string"

text \<open>
  \<^verbatim>\<open>range(0, n, 3)\<close> and the reshaping in \<^verbatim>\<open>create_mesh\<close>,
  \<^verbatim>\<open>[indices[i:i + 3] for i in range(0, len(indices), 3)]\<close>. The rest of
  \<^verbatim>\<open>create_mesh\<close> hands the faces and the components to the host, whose calls can
  raise on their own grounds; only \<^verbatim>\<open>create_material\<close> of it is embedded.
\<close>

definition range3 :: "nat \<Rightarrow> nat list" where
  "range3 n = map (\<lambda>j. 3 * j) [0 ..< (n + 2) div 3]"

definition slice :: "'a list \<Rightarrow> nat \<Rightarrow> nat \<Rightarrow> 'a list" where
  "slice xs lo hi = take (hi - lo) (drop lo xs)"

definition faces_of :: "'a list \<Rightarrow> 'a list list" where
  "faces_of indices = map (\<lambda>i. slice indices i (i + 3)) (range3 (length indices))"

definition create_material ::
  "geometry_item \<Rightarrow> 'm list \<Rightarrow> 'm mesh \<times> report list \<Rightarrow> 'm mesh \<times> report list" where
  "create_material cwxml mats st =
     (case st of (m, reports) \<Rightarrow>
        if \<not> (0 \<le> shader_index cwxml \<and> shader_index cwxml < int (length mats))
        then (m, reports @ [(WARNING, ''Material not set for '' @ mesh_repr m
                @ ''. Shader index of '' @ str_int (shader_index cwxml) @ '' not found!'')])
        else (m\<lparr>materials := materials m @ [mats ! nat (shader_index cwxml)]\<rparr>, reports))"

text \<open>
  The vertex groups of the host object: each has the name asked for in
  \<^verbatim>\<open>vertex_groups.new(name=...)\<close> and the \<^verbatim>\<open>add([vertex_index], weight, "ADD")\<close>
  calls made on it, in order.
\<close>

record bpy_vertex_group =
  group_name :: string
  group_adds :: "(nat \<times> rat) list"

definition bone_name_of :: "bone_item list \<Rightarrow> int list \<Rightarrow> int \<Rightarrow> error + string" where
  "bone_name_of bones ids bone_index =
     (if bones \<noteq> [] \<and> bone_index < int (length bones)
      then (case py_index bones bone_index of Inl e \<Rightarrow> Inl e | Inr b \<Rightarrow> Inr (name b))
      else if ids \<noteq> [] \<and> bone_index < int (length ids)
      then Inr (''EXTERNAL_BONE.'' @ str_int bone_index)
      else Inr ''UNKNOWN_BONE'')"

fun vertex_groups_loop ::
  "bone_item list \<Rightarrow> int list \<Rightarrow> int list \<Rightarrow> bpy_vertex_group list
     \<Rightarrow> error + bpy_vertex_group list" where
  "vertex_groups_loop bones ids [] bpy_vertex_groups = Inr bpy_vertex_groups"
| "vertex_groups_loop bones ids (bone_index # ks) bpy_vertex_groups =
     (case bone_name_of bones ids bone_index of Inl e \<Rightarrow> Inl e
      | Inr bone_name \<Rightarrow>
          vertex_groups_loop bones ids ks
            (bpy_vertex_groups @ [\<lparr>group_name = bone_name, group_adds = []\<rparr>]))"

definition create_vertex_groups ::
  "geometry_item \<Rightarrow> vertex_components \<Rightarrow> bone_item list \<Rightarrow> bpy_vertex_group list
     \<Rightarrow> error + bpy_vertex_group list" where
  "create_vertex_groups cwxml vc bones bpy_vertex_groups =
     vertex_groups_loop bones (bone_ids cwxml) (dict_keys (vertex_groups vc)) bpy_vertex_groups"

fun add_loop ::
  "nat \<Rightarrow> (nat \<times> rat) list \<Rightarrow> bpy_vertex_group list \<Rightarrow> error + bpy_vertex_group list" where
  "add_loop i [] gs = Inr gs"
| "add_loop i ((vertex_index, weight) # rest) gs =
     (case subscript gs i of Inl e \<Rightarrow> Inl e
      | Inr g \<Rightarrow>
          add_loop i rest (gs[i := g\<lparr>group_adds := group_adds g @ [(vertex_index, weight)]\<rparr>]))"

fun weights_loop ::
  "nat \<Rightarrow> (nat \<times> rat) list list \<Rightarrow> bpy_vertex_group list \<Rightarrow> error + bpy_vertex_group list" where
  "weights_loop i [] gs = Inr gs"
| "weights_loop i (vertex_group # rest) gs =
     (case add_loop i vertex_group gs of Inl e \<Rightarrow> Inl e
      | Inr gs' \<Rightarrow> weights_loop (Suc i) rest gs')"

definition set_geometry_weights ::
  "vertex_components \<Rightarrow> bpy_vertex_group list \<Rightarrow> error + bpy_vertex_group list" where
  "set_geometry_weights vc gs = weights_loop 0 (dict_values (vertex_groups vc)) gs"

section \<open>What the decoder is to produce\<close>

text \<open>
  The specification's description of the result, written independently of the loops
  above. A grouping of (key, entry) pairs lists the keys in the order of their first
  occurrence and gives each key all of its entries, in their original order.
\<close>

fun first_occurrences :: "'a list \<Rightarrow> 'a list" where
  "first_occurrences [] = []"
| "first_occurrences (x # xs) = x # removeAll x (first_occurrences xs)"

definition entries_for :: "'k \<Rightarrow> ('k \<times> 'v) list \<Rightarrow> 'v list" where
  "entries_for k es = map snd (filter (\<lambda>e. fst e = k) es)"

definition grouped :: "('k \<times> 'v) list \<Rightarrow> ('k, 'v list) dict" where
  "grouped es = map (\<lambda>k. (k, entries_for k es)) (first_occurrences (map fst es))"

text \<open>
  The four (bone index, (vertex index, weight)) entries of a vertex that has blend
  weights, slot by slot; none for a vertex without.
\<close>

definition slot_entries :: "nat \<Rightarrow> vertex \<Rightarrow> (int \<times> nat \<times> rat) list" where
  "slot_entries vertex_index vertex =
     (case map_of vertex ''blendweights'' of None \<Rightarrow> []
      | Some bw \<Rightarrow>
          (case map_of vertex ''blendindices'' of
             Some (IntTuple bi) \<Rightarrow>
               map (\<lambda>i. (bi ! i, (vertex_index, components bw ! i / 255))) [0, 1, 2, 3]
           | _ \<Rightarrow> []))"

fun blend_entries :: "nat \<Rightarrow> vertex list \<Rightarrow> (int \<times> nat \<times> rat) list" where
  "blend_entries n [] = []"
| "blend_entries n (v # vs) = slot_entries n v @ blend_entries (Suc n) vs"

text \<open>The fields whose name contains \<open>sub\<close>, over all vertices in input order.\<close>

definition channel_entries :: "string \<Rightarrow> vertex list \<Rightarrow> (string \<times> fval) list" where
  "channel_entries sub vs = concat (map (filter (\<lambda>(key, val). str_contains key sub)) vs)"

definition decoded :: "vertex list \<Rightarrow> vertex_components" where
  "decoded vs =
     \<lparr>positions = map (\<lambda>v. the (map_of v ''position'')) vs,
      normals = map (\<lambda>v. components (the (map_of v ''normal''))) (filter (\<lambda>v. hasattr v ''normal'') vs),
      uv_map = grouped (channel_entries ''texcoord'' vs),
      color_map = grouped (channel_entries ''colour'' vs),
      vertex_groups = grouped (blend_entries 0 vs)\<rparr>"

text \<open>
  Vertex records on which the decoder does not raise: a position is present, a normal
  has at least two components, and a record with blend weights has at least four of them
  and at least four integer blend indices.
\<close>

definition normal_ok :: "vertex \<Rightarrow> bool" where
  "normal_ok vertex =
     (case map_of vertex ''normal'' of None \<Rightarrow> True | Some n \<Rightarrow> 2 \<le> length (components n))"

definition blend_ok :: "vertex \<Rightarrow> bool" where
  "blend_ok vertex =
     (case map_of vertex ''blendweights'' of None \<Rightarrow> False
      | Some bw \<Rightarrow> 4 \<le> length (components bw)
          \<and> (case map_of vertex ''blendindices'' of
                Some (IntTuple bi) \<Rightarrow> 4 \<le> length bi | _ \<Rightarrow> False))"

definition vertex_ok :: "vertex \<Rightarrow> bool" where
  "vertex_ok vertex =
     (hasattr vertex ''position'' \<and> normal_ok vertex
      \<and> (hasattr vertex ''blendweights'' \<longrightarrow> blend_ok vertex))"

text \<open>
  A layout is the list of field names of the buffer's records; the names of a named
  tuple are distinct.
\<close>

definition has_layout :: "string list \<Rightarrow> vertex list \<Rightarrow> bool" where
  "has_layout layout vs = (distinct layout \<and> list_all (\<lambda>v. map fst v = layout) vs)"

text \<open>Adding a list of (key, entry) pairs to a dict, one \<open>group_append\<close> at a time.\<close>

definition group_entries :: "('k \<times> 'v) list \<Rightarrow> ('k, 'v list) dict \<Rightarrow> ('k, 'v list) dict" where
  "group_entries es d = fold (\<lambda>(k, x) d'. group_append d' k x) es d"

text \<open>The condition of \<open>blend_ok\<close> for the slots still to be read by the slot loop.\<close>

definition slots_ok :: "nat list \<Rightarrow> vertex \<Rightarrow> bool" where
  "slots_ok slots vertex =
     (case map_of vertex ''blendweights'' of None \<Rightarrow> False
      | Some bw \<Rightarrow>
          (case map_of vertex ''blendindices'' of
             Some (IntTuple bi) \<Rightarrow> \<forall>i \<in> set slots. i < length (components bw) \<and> i < length bi
           | _ \<Rightarrow> False))"

text \<open>What one iteration over a well-formed record adds to the components.\<close>

definition step_spec :: "nat \<Rightarrow> vertex \<Rightarrow> vertex_components \<Rightarrow> vertex_components" where
  "step_spec n v vc =
     \<lparr>positions = positions vc @ [the (map_of v ''position'')],
      normals = normals vc @ map (\<lambda>v. components (the (map_of v ''normal''))) (filter (\<lambda>v. hasattr v ''normal'') [v]),
      uv_map = group_entries (channel_entries ''texcoord'' [v]) (uv_map vc),
      color_map = group_entries (channel_entries ''colour'' [v]) (color_map vc),
      vertex_groups = group_entries (slot_entries n v) (vertex_groups vc)\<rparr>"

section \<open>Facts about the containers\<close>

lemma keys_group_append:
  "dict_keys (group_append d k x) = (if k \<in> set (dict_keys d) then dict_keys d else dict_keys d @ [k])"
  by (auto simp: group_append_def dict_item_append_def dict_setitem_def dict_contains_def
      dict_keys_def split_beta comp_def if_distrib cong: if_cong)

lemma map_of_item_append:
  "map_of (dict_item_append d k x) k'
     = (if k' = k then map_option (\<lambda>xs. xs @ [x]) (map_of d k) else map_of d k')"
  by (induction d) (auto simp: dict_item_append_def)

lemma map_of_group_append:
  "map_of (group_append d k x) k'
     = (if k' = k then Some ((case map_of d k of None \<Rightarrow> [] | Some xs \<Rightarrow> xs) @ [x])
        else map_of d k')"
proof (cases "k \<in> set (dict_keys d)")
  case True
  then obtain xs where "map_of d k = Some xs"
    by (metis dict_keys_def map_of_eq_None_iff not_Some_eq set_map)
  with True show ?thesis
    by (simp add: group_append_def dict_contains_def map_of_item_append)
next
  case False
  then have "map_of d k = None"
    by (simp add: dict_keys_def map_of_eq_None_iff)
  with False show ?thesis
    by (simp add: group_append_def dict_contains_def dict_setitem_def map_of_item_append
        map_add_def split: option.splits)
qed

lemma distinct_group_append:
  "distinct (dict_keys d) \<Longrightarrow> distinct (dict_keys (group_append d k x))"
  by (simp add: keys_group_append)

lemma group_entries_Nil: "group_entries [] d = d"
  by (simp add: group_entries_def)

lemma group_entries_Cons: "group_entries ((k, x) # es) d = group_entries es (group_append d k x)"
  by (simp add: group_entries_def)

lemma group_entries_append:
  "group_entries (es @ es') d = group_entries es' (group_entries es d)"
  by (simp add: group_entries_def)

lemma filter_removeAll: "\<not> P k \<Longrightarrow> filter P (removeAll k xs) = filter P xs"
  by (induction xs) auto

lemma keys_group_entries:
  "dict_keys (group_entries es d)
     = dict_keys d @ filter (\<lambda>k. k \<notin> set (dict_keys d)) (first_occurrences (map fst es))"
proof (induction es arbitrary: d)
  case Nil
  then show ?case by (simp add: group_entries_Nil)
next
  case (Cons e es)
  obtain k x where e: "e = (k, x)" by (cases e)
  show ?case
  proof (cases "k \<in> set (dict_keys d)")
    case True
    then show ?thesis
      by (simp add: e group_entries_Cons Cons.IH keys_group_append filter_removeAll)
  next
    case False
    have "filter (\<lambda>y. y \<noteq> k \<and> y \<notin> set (dict_keys d)) ys
        = filter (\<lambda>y. y \<notin> set (dict_keys d)) (removeAll k ys)" for ys
      by (induction ys) auto
    with False show ?thesis
      by (simp add: e group_entries_Cons Cons.IH keys_group_append)
  qed
qed

lemma map_of_group_entries:
  "map_of (group_entries es d) k
     = (if k \<in> fst ` set es \<or> k \<in> set (dict_keys d)
        then Some ((case map_of d k of None \<Rightarrow> [] | Some xs \<Rightarrow> xs) @ entries_for k es)
        else None)"
proof (induction es arbitrary: d)
  case Nil
  then show ?case
    by (auto simp: group_entries_Nil entries_for_def dict_keys_def map_of_eq_None_iff
        split: option.splits)
next
  case (Cons e es)
  obtain k' x where e: "e = (k', x)" by (cases e)
  show ?case
    by (auto simp: e group_entries_Cons Cons.IH map_of_group_append keys_group_append
        entries_for_def)
qed

lemma distinct_first_occurrences: "distinct (first_occurrences xs)"
  by (induction xs) (auto simp: distinct_removeAll)

lemma set_first_occurrences: "set (first_occurrences xs) = set xs"
  by (induction xs) auto

lemma dict_eqI:
  "dict_keys d = ks \<Longrightarrow> distinct ks \<Longrightarrow> (\<forall>k \<in> set ks. map_of d k = Some (f k))
     \<Longrightarrow> d = map (\<lambda>k. (k, f k)) ks"
proof (induction d arbitrary: ks)
  case Nil
  then show ?case by (simp add: dict_keys_def)
next
  case (Cons p d)
  obtain k v where p: "p = (k, v)" by (cases p)
  from Cons.prems(1) obtain ks' where ks: "ks = k # ks'" and d: "dict_keys d = ks'"
    by (auto simp: dict_keys_def p)
  from Cons.prems(2) ks have nk: "k \<notin> set ks'" and dk: "distinct ks'" by auto
  have "\<forall>k' \<in> set ks'. map_of d k' = Some (f k')"
  proof
    fix k' assume k': "k' \<in> set ks'"
    then have "k' \<noteq> k" using nk by auto
    moreover have "map_of (p # d) k' = Some (f k')"
      using Cons.prems(3) k' by (simp add: ks)
    ultimately show "map_of d k' = Some (f k')" by (simp add: p)
  qed
  from Cons.IH [OF d dk this] have "d = map (\<lambda>k. (k, f k)) ks'" .
  moreover have "v = f k" using Cons.prems(3) by (simp add: ks p)
  ultimately show ?case by (simp add: ks p)
qed

lemma group_entries_grouped: "group_entries es [] = grouped es"
  unfolding grouped_def
proof (rule dict_eqI)
  show "dict_keys (group_entries es []) = first_occurrences (map fst es)"
    using keys_group_entries [of es "[]"] by (simp add: dict_keys_def)
  show "distinct (first_occurrences (map fst es))"
    by (rule distinct_first_occurrences)
  show "\<forall>k \<in> set (first_occurrences (map fst es)).
          map_of (group_entries es []) k = Some (entries_for k es)"
    by (simp add: map_of_group_entries set_first_occurrences)
qed

section \<open>The decoder on well-formed and on malformed records\<close>

lemma fields_loop_group_entries:
  "fields_loop items (uv, col)
     = (group_entries (filter (\<lambda>(key, val). str_contains key ''texcoord'') items) uv,
        group_entries (filter (\<lambda>(key, val). str_contains key ''colour'') items) col)"
proof (induction items arbitrary: uv col)
  case Nil
  then show ?case by (simp add: group_entries_Nil)
next
  case (Cons item items)
  obtain key val where item: "item = (key, val)" by (cases item)
  show ?case
    by (simp add: item Cons.IH group_entries_Cons)
qed

lemma blend_weight_components:
  "i < length (components bw) \<Longrightarrow> blend_weight bw i = Inr (components bw ! i / 255)"
  by (cases bw) (simp_all add: subscript_def)

lemma blend_weight_Inr: "blend_weight bw i = Inr w \<Longrightarrow> i < length (components bw)"
  by (cases bw) (simp_all add: subscript_def split: if_splits)

lemma blend_index_Inr: "blend_index bi i = Inr k \<Longrightarrow> \<exists>bs. bi = IntTuple bs \<and> i < length bs"
  by (cases bi) (simp_all add: subscript_def split: if_splits)

lemma blend_loop_ok:
  assumes "map_of v ''blendweights'' = Some bw"
    and "map_of v ''blendindices'' = Some (IntTuple bi)"
    and "\<forall>i \<in> set slots. i < length (components bw) \<and> i < length bi"
  shows "blend_loop slots n v g
     = Inr (group_entries (map (\<lambda>i. (bi ! i, (n, components bw ! i / 255))) slots) g)"
  using assms(3)
proof (induction slots arbitrary: g)
  case Nil
  then show ?case by (simp add: group_entries_Nil)
next
  case (Cons i slots)
  then have i: "i < length (components bw)" "i < length bi" by auto
  from Cons have IH: "blend_loop slots n v g'
     = Inr (group_entries (map (\<lambda>i. (bi ! i, (n, components bw ! i / 255))) slots) g')" for g'
    by simp
  show ?case
    using assms(1,2) i
    by (simp add: getattr_def blend_weight_components subscript_def IH group_entries_Cons)
qed

lemma blend_loop_Inr_slots_ok:
  "slots \<noteq> [] \<Longrightarrow> blend_loop slots n v g = Inr g' \<Longrightarrow> slots_ok slots v"
proof (induction slots arbitrary: g)
  case Nil
  then show ?case by simp
next
  case (Cons i slots)
  from Cons.prems(2) obtain bw w bi k where
    bw: "map_of v ''blendweights'' = Some bw" and w: "blend_weight bw i = Inr w"
    and bi: "map_of v ''blendindices'' = Some bi" and k: "blend_index bi i = Inr k"
    and rest: "blend_loop slots n v (group_append g k (n, w)) = Inr g'"
    by (auto simp: getattr_def split: option.splits sum.splits)
  from blend_index_Inr [OF k] obtain bs where bs: "bi = IntTuple bs" "i < length bs" by blast
  have iw: "i < length (components bw)" by (rule blend_weight_Inr [OF w])
  show ?case
  proof (cases "slots = []")
    case True
    then show ?thesis using bw bi bs iw by (simp add: slots_ok_def)
  next
    case False
    from Cons.IH [OF False rest] show ?thesis
      using bw bi bs iw by (simp add: slots_ok_def)
  qed
qed

lemma slots_ok_blend_ok: "slots_ok [0, 1, 2, 3] v = blend_ok v"
proof -
  have "(\<forall>i \<in> set [0, 1, 2, 3 :: nat]. i < a \<and> i < b) = (4 \<le> a \<and> 4 \<le> b)" for a b :: nat
    by auto
  then show ?thesis
    by (simp only: slots_ok_def blend_ok_def split: option.splits fval.splits) auto
qed

lemma slot_entries_absent:
  "\<not> hasattr v ''blendweights'' \<Longrightarrow> slot_entries n v = []"
  by (simp add: slot_entries_def hasattr_def)

lemma blend_loop_blend_ok:
  assumes "blend_ok v"
  shows "blend_loop [0, 1, 2, 3] n v g = Inr (group_entries (slot_entries n v) g)"
proof -
  from assms obtain bw bi where bw: "map_of v ''blendweights'' = Some bw"
    and bi: "map_of v ''blendindices'' = Some (IntTuple bi)"
    and len: "4 \<le> length (components bw)" "4 \<le> length bi"
    by (auto simp: blend_ok_def split: option.splits fval.splits)
  from len have "\<forall>i \<in> set [0, 1, 2, 3 :: nat]. i < length (components bw) \<and> i < length bi"
    by auto
  from blend_loop_ok [OF bw bi this] show ?thesis
    by (simp add: slot_entries_def bw bi)
qed

lemma blend_loop_not_blend_ok:
  assumes "\<not> blend_ok v"
  shows "\<exists>e. blend_loop [0, 1, 2, 3] n v g = Inl e"
proof (cases "blend_loop [0, 1, 2, 3] n v g")
  case (Inl e)
  then show ?thesis by blast
next
  case (Inr g')
  have "slots_ok [0, 1, 2, 3] v"
    by (rule blend_loop_Inr_slots_ok [OF _ Inr]) simp
  then have "blend_ok v" by (simp only: slots_ok_blend_ok)
  with assms show ?thesis by blast
qed

lemma normal_step_ok:
  assumes "normal_ok v"
  shows "(if hasattr v ''normal''
            then (case getattr v ''normal'' of Inl e \<Rightarrow> Inl e
                  | Inr n \<Rightarrow>
                      (case Vector n of Inl e \<Rightarrow> Inl e
                       | Inr nv \<Rightarrow> Inr (ns @ [nv])))
            else Inr ns)
      = Inr (ns @ map (\<lambda>v. components (the (map_of v ''normal'')))
                   (filter (\<lambda>v. hasattr v ''normal'') [v]))"
  using assms
  by (auto simp: normal_ok_def hasattr_def getattr_def Vector_def split: option.splits)

lemma normal_step_not_ok:
  assumes "\<not> normal_ok v"
  shows "(if hasattr v ''normal''
            then (case getattr v ''normal'' of Inl e \<Rightarrow> Inl e
                  | Inr n \<Rightarrow>
                      (case Vector n of Inl e \<Rightarrow> Inl e
                       | Inr nv \<Rightarrow> Inr (ns @ [nv])))
            else Inr ns)
      = Inl ValueError"
  using assms
  by (auto simp: normal_ok_def hasattr_def getattr_def Vector_def split: option.splits)

lemma vertex_step_ok:
  assumes "vertex_ok v"
  shows "vertex_step n v vc = Inr (step_spec n v vc)"
proof -
  from assms obtain pos where pos: "map_of v ''position'' = Some pos"
    by (auto simp: vertex_ok_def hasattr_def)
  from assms have nok: "normal_ok v" by (simp add: vertex_ok_def)
  have grp: "(if hasattr v ''blendweights''
            then blend_loop [0, 1, 2, 3] n v (vertex_groups vc)
            else Inr (vertex_groups vc))
      = Inr (group_entries (slot_entries n v) (vertex_groups vc))"
  proof (cases "hasattr v ''blendweights''")
    case True
    with assms have "blend_ok v" by (simp add: vertex_ok_def)
    from blend_loop_blend_ok [OF this] True show ?thesis by simp
  next
    case False
    then show ?thesis by (simp add: slot_entries_absent group_entries_Nil)
  qed
  show ?thesis
    unfolding vertex_step_def normal_step_ok [OF nok] grp
    by (simp add: getattr_def pos fields_loop_group_entries step_spec_def channel_entries_def)
qed

lemma vertex_step_no_position:
  "\<not> hasattr v ''position'' \<Longrightarrow> vertex_step n v vc = Inl AttributeError"
  by (simp add: vertex_step_def getattr_def hasattr_def)

lemma vertex_step_bad_normal:
  assumes "hasattr v ''position''" and "\<not> normal_ok v"
  shows "vertex_step n v vc = Inl ValueError"
proof -
  from assms(1) obtain pos where pos: "map_of v ''position'' = Some pos"
    by (auto simp: hasattr_def)
  show ?thesis
    unfolding vertex_step_def normal_step_not_ok [OF assms(2)]
    by (simp only: getattr_def pos option.case sum.case)
qed

lemma vertex_step_blend_error:
  assumes "hasattr v ''position''" and "normal_ok v" and "hasattr v ''blendweights''"
    and "blend_loop [0, 1, 2, 3] n v (vertex_groups vc) = Inl e"
  shows "vertex_step n v vc = Inl e"
proof -
  from assms(1) obtain pos where pos: "map_of v ''position'' = Some pos"
    by (auto simp: hasattr_def)
  show ?thesis
    unfolding vertex_step_def normal_step_ok [OF assms(2)]
    by (simp only: getattr_def pos assms(3,4) option.case sum.case if_True)
qed

lemma vertex_step_not_ok:
  assumes "\<not> vertex_ok v"
  shows "\<exists>e. vertex_step n v vc = Inl e"
proof -
  consider "\<not> hasattr v ''position''"
    | "hasattr v ''position''" "\<not> normal_ok v"
    | "hasattr v ''position''" "normal_ok v" "hasattr v ''blendweights''" "\<not> blend_ok v"
    using assms by (auto simp: vertex_ok_def)
  then show ?thesis
  proof cases
    case 1
    then show ?thesis by (simp add: vertex_step_no_position)
  next
    case 2
    then show ?thesis by (simp add: vertex_step_bad_normal)
  next
    case 3
    from blend_loop_not_blend_ok [OF 3(4)] obtain e
      where "blend_loop [0, 1, 2, 3] n v (vertex_groups vc) = Inl e" by blast
    from vertex_step_blend_error [OF 3(1,2,3) this] show ?thesis ..
  qed
qed





lemma step_spec_fields:
  "positions (step_spec n v vc) = positions vc @ [the (map_of v ''position'')]"
  "normals (step_spec n v vc) = normals vc @ map (\<lambda>v. components (the (map_of v ''normal''))) (filter (\<lambda>v. hasattr v ''normal'') [v])"
  "uv_map (step_spec n v vc) = group_entries (channel_entries ''texcoord'' [v]) (uv_map vc)"
  "color_map (step_spec n v vc) = group_entries (channel_entries ''colour'' [v]) (color_map vc)"
  "vertex_groups (step_spec n v vc) = group_entries (slot_entries n v) (vertex_groups vc)"
  by (simp_all add: step_spec_def)

lemma channel_entries_Cons:
  "channel_entries sub (v # vs) = channel_entries sub [v] @ channel_entries sub vs"
  by (simp add: channel_entries_def)

lemma vertices_loop_ok:
  "list_all vertex_ok vs \<Longrightarrow>
   vertices_loop n vs vc
     = Inr \<lparr>positions = positions vc @ map (\<lambda>v. the (map_of v ''position'')) vs,
            normals = normals vc @ map (\<lambda>v. components (the (map_of v ''normal'')))
                        (filter (\<lambda>v. hasattr v ''normal'') vs),
            uv_map = group_entries (channel_entries ''texcoord'' vs) (uv_map vc),
            color_map = group_entries (channel_entries ''colour'' vs) (color_map vc),
            vertex_groups = group_entries (blend_entries n vs) (vertex_groups vc)\<rparr>"
proof (induction vs arbitrary: n vc)
  case Nil
  then show ?case by (simp add: channel_entries_def group_entries_Nil)
next
  case (Cons v vs)
  then have v: "vertex_ok v" and vs: "list_all vertex_ok vs" by auto
  show ?case
    unfolding vertices_loop.simps vertex_step_ok [OF v] sum.case Cons.IH [OF vs] step_spec_fields
    by (simp add: group_entries_append channel_entries_Cons [of _ v vs])
qed

lemma vertices_loop_not_ok:
  "\<not> list_all vertex_ok vs \<Longrightarrow> \<exists>e. vertices_loop n vs vc = Inl e"
proof (induction vs arbitrary: n vc)
  case Nil
  then show ?case by simp
next
  case (Cons v vs)
  show ?case
  proof (cases "vertex_ok v")
    case False
    from vertex_step_not_ok [OF False] obtain e where "vertex_step n v vc = Inl e" by blast
    then show ?thesis by simp
  next
    case True
    with Cons.prems have "\<not> list_all vertex_ok vs" by simp
    from Cons.IH [OF this] show ?thesis
      by (simp add: vertex_step_ok [OF True])
  qed
qed

lemma get_vertex_components_ok:
  "list_all vertex_ok vs \<Longrightarrow> get_vertex_components vs = Inr (decoded vs)"
  by (simp add: get_vertex_components_def vertices_loop_ok decoded_def group_entries_grouped)

lemma get_vertex_components_not_ok:
  "\<not> list_all vertex_ok vs \<Longrightarrow> \<exists>e. get_vertex_components vs = Inl e"
  by (simp add: get_vertex_components_def vertices_loop_not_ok)


section \<open>Facts about the decoded components\<close>

lemma startswith_iff: "startswith s p \<longleftrightarrow> (\<exists>b. s = p @ b)"
  by (induction s p rule: startswith.induct) auto

lemma str_contains_iff: "str_contains s sub \<longleftrightarrow> (\<exists>a b. s = a @ sub @ b)"
proof (induction s)
  case Nil
  then show ?case by auto
next
  case (Cons c s)
  show ?case
  proof
    assume "str_contains (c # s) sub"
    then consider "startswith (c # s) sub" | "str_contains s sub" by auto
    then show "\<exists>a b. c # s = a @ sub @ b"
    proof cases
      case 1
      then obtain b where "c # s = sub @ b" by (auto simp: startswith_iff)
      then have "c # s = [] @ sub @ b" by simp
      then show ?thesis by blast
    next
      case 2
      with Cons obtain a b where "s = a @ sub @ b" by blast
      then have "c # s = (c # a) @ sub @ b" by simp
      then show ?thesis by blast
    qed
  next
    assume "\<exists>a b. c # s = a @ sub @ b"
    then obtain a b where ab: "c # s = a @ sub @ b" by blast
    show "str_contains (c # s) sub"
    proof (cases a)
      case Nil
      with ab have "startswith (c # s) sub" by (auto simp: startswith_iff)
      then show ?thesis by simp
    next
      case (Cons a0 a')
      with ab have "s = a' @ sub @ b" by simp
      with Cons.IH have "str_contains s sub" by blast
      then show ?thesis by simp
    qed
  qed
qed

lemma grouped_member:
  "(k, xs) \<in> set (grouped es) \<Longrightarrow> k \<in> fst ` set es \<and> xs = entries_for k es"
  by (auto simp: grouped_def set_first_occurrences)

lemma entries_for_append: "entries_for k (es @ es') = entries_for k es @ entries_for k es'"
  by (simp add: entries_for_def)

lemma entries_for_Nil: "entries_for k [] = []"
  by (simp add: entries_for_def)

lemma entries_for_subset: "set (entries_for k es) \<subseteq> snd ` set es"
  by (auto simp: entries_for_def)

lemma entries_for_field:
  "distinct (map fst v) \<Longrightarrow> k \<in> set (map fst v) \<Longrightarrow> P k \<Longrightarrow>
     entries_for k (filter (\<lambda>(key, val). P key) v) = [the (map_of v k)]"
proof (induction v)
  case Nil
  then show ?case by simp
next
  case (Cons f v)
  obtain key val where f: "f = (key, val)" by (cases f)
  show ?case
  proof (cases "key = k")
    case True
    with Cons.prems f have "k \<notin> fst ` set v" by auto
    then have "filter (\<lambda>e. fst e = k) (filter (\<lambda>(key, val). P key) v) = []"
      by (auto simp: filter_empty_conv)
    with True Cons.prems(3) show ?thesis by (simp add: f entries_for_def)
  next
    case False
    with Cons show ?thesis by (auto simp: f entries_for_def)
  qed
qed

lemma channel_entries_keys:
  "k \<in> fst ` set (channel_entries sub vs) \<Longrightarrow>
     str_contains k sub \<and> (\<exists>v \<in> set vs. k \<in> set (map fst v))"
  by (force simp: channel_entries_def)

lemma channel_entries_layout:
  assumes "has_layout layout vs" and "k \<in> fst ` set (channel_entries sub vs)"
  shows "entries_for k (channel_entries sub vs) = map (\<lambda>v. the (map_of v k)) vs"
proof -
  from channel_entries_keys [OF assms(2)] obtain v0
    where sub: "str_contains k sub" and "v0 \<in> set vs" "k \<in> set (map fst v0)" by blast
  with assms(1) have k: "k \<in> set layout"
    by (auto simp: has_layout_def list_all_iff)
  have "entries_for k (channel_entries sub ws) = map (\<lambda>v. the (map_of v k)) ws"
    if "set ws \<subseteq> set vs" for ws
    using that
  proof (induction ws)
    case Nil
    then show ?case by (simp add: channel_entries_def entries_for_Nil)
  next
    case (Cons w ws)
    then have "w \<in> set vs" by simp
    with assms(1) have w: "map fst w = layout" "distinct (map fst w)"
      by (auto simp: has_layout_def list_all_iff)
    have "entries_for k (filter (\<lambda>(key, val). str_contains key sub) w) = [the (map_of w k)]"
      by (rule entries_for_field) (use w k sub in auto)
    moreover have "channel_entries sub [w] = filter (\<lambda>(key, val). str_contains key sub) w"
      by (simp add: channel_entries_def)
    ultimately show ?case
      using Cons by (simp add: channel_entries_Cons [of sub w ws] entries_for_append)
  qed
  then show ?thesis by simp
qed

lemma blend_entries_index:
  "(k, i, w) \<in> set (blend_entries n vs) \<Longrightarrow> n \<le> i \<and> i < n + length vs"
proof (induction vs arbitrary: n)
  case Nil
  then show ?case by simp
next
  case (Cons v vs)
  from Cons.prems consider "(k, i, w) \<in> set (slot_entries n v)"
    | "(k, i, w) \<in> set (blend_entries (Suc n) vs)" by auto
  then show ?case
  proof cases
    case 1
    then have "i = n"
      by (auto simp: slot_entries_def split: option.splits fval.splits)
    then show ?thesis by simp
  next
    case 2
    from Cons.IH [OF 2] show ?thesis by simp
  qed
qed

lemma sorted_blend_entries: "sorted (map (\<lambda>e. fst (snd e)) (blend_entries n vs))"
proof (induction vs arbitrary: n)
  case Nil
  then show ?case by simp
next
  case (Cons v vs)
  have a: "sorted (map (\<lambda>e. fst (snd e)) (slot_entries n v))"
    by (simp add: slot_entries_def comp_def split: option.splits fval.splits)
  have b: "fst (snd e) = n" if "e \<in> set (slot_entries n v)" for e
    using that by (auto simp: slot_entries_def split: option.splits fval.splits)
  have c: "n \<le> fst (snd e)" if "e \<in> set (blend_entries (Suc n) vs)" for e
    using blend_entries_index [of "fst e" "fst (snd e)" "snd (snd e)" "Suc n" vs] that by simp
  show ?case
    using a b c Cons.IH [of "Suc n"] by (auto simp: sorted_append)
qed

lemma length_blend_entries:
  "list_all vertex_ok vs \<Longrightarrow>
     length (blend_entries n vs) = 4 * length (filter (\<lambda>v. hasattr v ''blendweights'') vs)"
proof (induction vs arbitrary: n)
  case Nil
  then show ?case by simp
next
  case (Cons v vs)
  have "length (slot_entries n v) = (if hasattr v ''blendweights'' then 4 else 0)"
    using Cons.prems
    by (auto simp: slot_entries_def vertex_ok_def blend_ok_def hasattr_def
        split: option.splits fval.splits)
  with Cons show ?case by simp
qed

lemma sum_length_item_append:
  "distinct (dict_keys d) \<Longrightarrow> k \<in> set (dict_keys d) \<Longrightarrow>
     sum_list (map (\<lambda>p. length (snd p)) (dict_item_append d k x))
       = Suc (sum_list (map (\<lambda>p. length (snd p)) d))"
proof (induction d)
  case Nil
  then show ?case by (simp add: dict_keys_def)
next
  case (Cons p d)
  obtain k' xs where p: "p = (k', xs)" by (cases p)
  show ?case
  proof (cases "k' = k")
    case True
    with Cons.prems(1) have "k \<notin> fst ` set d" by (auto simp: dict_keys_def p)
    then have "map (\<lambda>(k', xs). if k' = k then (k', xs @ [x]) else (k', xs)) d = d"
      by (induction d) auto
    with True show ?thesis by (simp add: p dict_item_append_def)
  next
    case False
    with Cons show ?thesis by (simp add: p dict_item_append_def dict_keys_def)
  qed
qed

lemma sum_length_group_append:
  assumes "distinct (dict_keys d)"
  shows "sum_list (map (\<lambda>p. length (snd p)) (group_append d k x))
       = Suc (sum_list (map (\<lambda>p. length (snd p)) d))"
proof (cases "k \<in> set (dict_keys d)")
  case True
  with assms show ?thesis
    by (simp add: group_append_def dict_contains_def sum_length_item_append)
next
  case False
  have "distinct (dict_keys (d @ [(k, [])]))" "k \<in> set (dict_keys (d @ [(k, [])]))"
    using assms False by (simp_all add: dict_keys_def)
  from sum_length_item_append [OF this] False show ?thesis
    by (simp add: group_append_def dict_contains_def dict_setitem_def)
qed

lemma sum_length_group_entries:
  "distinct (dict_keys d) \<Longrightarrow>
     sum_list (map (\<lambda>p. length (snd p)) (group_entries es d))
       = sum_list (map (\<lambda>p. length (snd p)) d) + length es"
proof (induction es arbitrary: d)
  case Nil
  then show ?case by (simp add: group_entries_Nil)
next
  case (Cons e es)
  obtain k x where e: "e = (k, x)" by (cases e)
  from Cons.prems have "distinct (dict_keys (group_append d k x))"
    by (rule distinct_group_append)
  from Cons.IH [OF this] show ?case
    by (simp add: e group_entries_Cons sum_length_group_append [OF Cons.prems])
qed

lemma sum_length_grouped: "sum_list (map (\<lambda>p. length (snd p)) (grouped es)) = length es"
  using sum_length_group_entries [of "[]" es]
  by (simp add: group_entries_grouped dict_keys_def)

lemma hasattr_layout:
  "has_layout layout vs \<Longrightarrow> v \<in> set vs \<Longrightarrow> hasattr v a \<longleftrightarrow> a \<in> set layout"
  by (auto simp: has_layout_def list_all_iff hasattr_def map_of_eq_None_iff
      simp flip: set_map)

lemma filter_normal_layout:
  assumes "has_layout layout vs"
  shows "filter (\<lambda>v. hasattr v a) vs = (if a \<in> set layout then vs else [])"
proof -
  have "\<forall>v \<in> set vs. hasattr v a \<longleftrightarrow> a \<in> set layout"
    using hasattr_layout [OF assms] by blast
  then show ?thesis by (auto simp: filter_empty_conv)
qed

section \<open>Bone weights\<close>

text \<open>
  C2. On records the decoder accepts, it returns, and \<^verbatim>\<open>vertex_groups\<close> is the
  grouping by bone index of the slot entries: for every vertex with blend weights and
  every slot \<open>i\<close> of 0..3, one entry \<open>(vertex_index, blendweights[i] / 255)\<close> under
  the key \<open>blendindices[i]\<close>. Nothing is renormalised, filtered or merged: each group
  holds all entries of its bone in input order, the groups together hold four entries
  for each such vertex, and within a group the vertex indices ascend.
\<close>

theorem blend_weights_grouped:
  "list_all vertex_ok vs \<Longrightarrow>
     \<exists>vc. get_vertex_components vs = Inr vc
       \<and> vertex_groups vc = grouped (blend_entries 0 vs)
       \<and> (\<forall>(k, entries) \<in> set (vertex_groups vc). sorted (map fst entries))
       \<and> sum_list (map (\<lambda>(k, entries). length entries) (vertex_groups vc))
           = 4 * length (filter (\<lambda>v. hasattr v ''blendweights'') vs)"
proof -
  assume ok: "list_all vertex_ok vs"
  have dec: "get_vertex_components vs = Inr (decoded vs)"
    by (rule get_vertex_components_ok [OF ok])
  have grp: "vertex_groups (decoded vs) = grouped (blend_entries 0 vs)"
    by (simp add: decoded_def)
  have srt: "sorted (map fst entries)"
    if "(k, entries) \<in> set (grouped (blend_entries 0 vs))" for k entries
  proof -
    from grouped_member [OF that] have "entries = entries_for k (blend_entries 0 vs)" by simp
    then have "map fst entries
        = map (\<lambda>e. fst (snd e)) (filter (\<lambda>e. fst e = k) (blend_entries 0 vs))"
      by (simp add: entries_for_def comp_def)
    then show ?thesis
      using sorted_filter [OF sorted_blend_entries [of 0 vs], of "\<lambda>e. fst e = k"] by simp
  qed
  have cnt: "sum_list (map (\<lambda>(k, entries). length entries) (grouped (blend_entries 0 vs)))
      = 4 * length (filter (\<lambda>v. hasattr v ''blendweights'') vs)"
    using sum_length_grouped [of "blend_entries 0 vs"] length_blend_entries [OF ok, of 0]
    by (simp add: split_def)
  show ?thesis
    using dec grp srt cnt by auto
qed

theorem blend_weights_grouped_witness:
  "list_all vertex_ok
     [[(''position'', FloatTuple [0, 0, 0]), (''blendweights'', IntTuple [255, 0, 0, 0]),
       (''blendindices'', IntTuple [2, 0, 0, 0])],
      [(''position'', FloatTuple [1, 0, 0]), (''blendweights'', IntTuple [128, 127, 0, 0]),
       (''blendindices'', IntTuple [2, 3, 0, 0])]]
   \<and> (\<exists>vc. get_vertex_components
         [[(''position'', FloatTuple [0, 0, 0]), (''blendweights'', IntTuple [255, 0, 0, 0]),
           (''blendindices'', IntTuple [2, 0, 0, 0])],
          [(''position'', FloatTuple [1, 0, 0]), (''blendweights'', IntTuple [128, 127, 0, 0]),
           (''blendindices'', IntTuple [2, 3, 0, 0])]] = Inr vc
        \<and> vertex_groups vc
            = [(2, [(0, 1), (1, 128 / 255)]),
               (0, [(0, 0), (0, 0), (0, 0), (1, 0), (1, 0)]),
               (3, [(1, 127 / 255)])])"
proof -
  let ?vs = "[[(''position'', FloatTuple [0, 0, 0]), (''blendweights'', IntTuple [255, 0, 0, 0]),
       (''blendindices'', IntTuple [2, 0, 0, 0])],
      [(''position'', FloatTuple [1, 0, 0]), (''blendweights'', IntTuple [128, 127, 0, 0]),
       (''blendindices'', IntTuple [2, 3, 0, 0])]]"
  have h: "list_all vertex_ok ?vs"
    by (simp add: vertex_ok_def normal_ok_def blend_ok_def hasattr_def)
  have g: "grouped (blend_entries 0 ?vs)
      = [(2, [(0, 1), (1, 128 / 255)]),
         (0, [(0, 0), (0, 0), (0, 0), (1, 0), (1, 0)]),
         (3, [(1, 127 / 255)])]"
    by (simp add: grouped_def entries_for_def slot_entries_def)
  from blend_weights_grouped [OF h] obtain vc
    where "get_vertex_components ?vs = Inr vc"
      and "vertex_groups vc = grouped (blend_entries 0 ?vs)"
    by blast
  with g h show ?thesis by (auto simp only:)
qed


section \<open>Texture coordinates and colours\<close>

text \<open>
  C3, as the code has it. On records the decoder accepts, \<^verbatim>\<open>uv_map\<close> is the grouping by
  field name of all fields whose name contains \<open>texcoord\<close>, and \<^verbatim>\<open>color_map\<close> the
  grouping of all fields whose name contains \<open>colour\<close>: the names appear in first-seen
  order, and each name has the values of its field in vertex order. The spelling
  \<open>color\<close> is not looked for.
\<close>

theorem channels_grouped:
  "list_all vertex_ok vs \<Longrightarrow>
     \<exists>vc. get_vertex_components vs = Inr vc
       \<and> uv_map vc = grouped (channel_entries ''texcoord'' vs)
       \<and> color_map vc = grouped (channel_entries ''colour'' vs)"
proof -
  assume ok: "list_all vertex_ok vs"
  have "get_vertex_components vs = Inr (decoded vs)"
    by (rule get_vertex_components_ok [OF ok])
  moreover have "uv_map (decoded vs) = grouped (channel_entries ''texcoord'' vs)"
    by (simp add: decoded_def)
  moreover have "color_map (decoded vs) = grouped (channel_entries ''colour'' vs)"
    by (simp add: decoded_def)
  ultimately show ?thesis by blast
qed

theorem channels_grouped_witness:
  "list_all vertex_ok
     [[(''position'', FloatTuple [0, 0, 0]), (''colour0'', IntTuple [255, 0, 0, 255]),
       (''texcoord0'', FloatTuple [0, 0]), (''color1'', IntTuple [1, 2, 3, 4]),
       (''texcoord1'', FloatTuple [1 / 2, 1])],
      [(''position'', FloatTuple [1, 0, 0]), (''colour0'', IntTuple [0, 255, 0, 255]),
       (''texcoord0'', FloatTuple [1, 0]), (''color1'', IntTuple [5, 6, 7, 8]),
       (''texcoord1'', FloatTuple [1, 1])]]
   \<and> (\<exists>vc. get_vertex_components
         [[(''position'', FloatTuple [0, 0, 0]), (''colour0'', IntTuple [255, 0, 0, 255]),
           (''texcoord0'', FloatTuple [0, 0]), (''color1'', IntTuple [1, 2, 3, 4]),
           (''texcoord1'', FloatTuple [1 / 2, 1])],
          [(''position'', FloatTuple [1, 0, 0]), (''colour0'', IntTuple [0, 255, 0, 255]),
           (''texcoord0'', FloatTuple [1, 0]), (''color1'', IntTuple [5, 6, 7, 8]),
           (''texcoord1'', FloatTuple [1, 1])]] = Inr vc
        \<and> uv_map vc = [(''texcoord0'', [FloatTuple [0, 0], FloatTuple [1, 0]]),
                        (''texcoord1'', [FloatTuple [1 / 2, 1], FloatTuple [1, 1]])]
        \<and> color_map vc = [(''colour0'', [IntTuple [255, 0, 0, 255], IntTuple [0, 255, 0, 255]])])"
proof -
  let ?vs = "[[(''position'', FloatTuple [0, 0, 0]), (''colour0'', IntTuple [255, 0, 0, 255]),
       (''texcoord0'', FloatTuple [0, 0]), (''color1'', IntTuple [1, 2, 3, 4]),
       (''texcoord1'', FloatTuple [1 / 2, 1])],
      [(''position'', FloatTuple [1, 0, 0]), (''colour0'', IntTuple [0, 255, 0, 255]),
       (''texcoord0'', FloatTuple [1, 0]), (''color1'', IntTuple [5, 6, 7, 8]),
       (''texcoord1'', FloatTuple [1, 1])]]"
  have h: "list_all vertex_ok ?vs"
    by (simp add: vertex_ok_def normal_ok_def blend_ok_def hasattr_def)
  have u: "grouped (channel_entries ''texcoord'' ?vs)
      = [(''texcoord0'', [FloatTuple [0, 0], FloatTuple [1, 0]]),
         (''texcoord1'', [FloatTuple [1 / 2, 1], FloatTuple [1, 1]])]"
    by (simp add: grouped_def entries_for_def channel_entries_def)
  have c: "grouped (channel_entries ''colour'' ?vs)
      = [(''colour0'', [IntTuple [255, 0, 0, 255], IntTuple [0, 255, 0, 255]])]"
    by (simp add: grouped_def entries_for_def channel_entries_def)
  from channels_grouped [OF h] obtain vc
    where "get_vertex_components ?vs = Inr vc"
      and "uv_map vc = grouped (channel_entries ''texcoord'' ?vs)"
      and "color_map vc = grouped (channel_entries ''colour'' ?vs)"
    by blast
  with u c h show ?thesis by (auto simp only:)
qed

text \<open>
  C3 as stated fails: a field named \<open>color0\<close> contains \<open>color\<close>, and the decoder
  leaves it out of \<^verbatim>\<open>color_map\<close>.
\<close>

theorem color_field_not_collected:
  "str_contains ''color0'' ''color''
   \<and> get_vertex_components
       [[(''position'', FloatTuple [0, 0, 0]), (''color0'', IntTuple [255, 0, 0, 255])]]
     = Inr \<lparr>positions = [FloatTuple [0, 0, 0]], normals = [], uv_map = [], color_map = [],
            vertex_groups = []\<rparr>"
  by (simp add: get_vertex_components_def vertex_step_def getattr_def hasattr_def)

section \<open>Errors of the decoder\<close>




section \<open>Invariants of the decoded components\<close>

text \<open>
  C6. On records the decoder accepts it returns components with one position for each
  vertex, and every vertex index inside \<^verbatim>\<open>vertex_groups\<close> is below the number of
  positions. For the records of one buffer, which share one layout (the field names of a
  named-tuple type), there are as many normals as positions or none, and every value list
  of \<^verbatim>\<open>uv_map\<close> and \<^verbatim>\<open>color_map\<close> has one entry for each position, entry \<open>i\<close>
  being the value of that field in vertex \<open>i\<close>.
\<close>

theorem decoded_invariant:
  "list_all vertex_ok vs \<Longrightarrow>
     \<exists>vc. get_vertex_components vs = Inr vc
       \<and> length (positions vc) = length vs
       \<and> (\<forall>(k, entries) \<in> set (vertex_groups vc).
             \<forall>(i, w) \<in> set entries. i < length (positions vc))
       \<and> (has_layout layout vs \<longrightarrow>
             (length (normals vc) = length (positions vc) \<or> length (normals vc) = 0)
             \<and> (\<forall>(k, xs) \<in> set (uv_map vc) \<union> set (color_map vc).
                   length xs = length (positions vc)
                   \<and> (\<forall>i < length vs. map_of (vs ! i) k = Some (xs ! i))))"
proof -
  assume ok: "list_all vertex_ok vs"
  have dec: "get_vertex_components vs = Inr (decoded vs)"
    by (rule get_vertex_components_ok [OF ok])
  have pos: "length (positions (decoded vs)) = length vs"
    by (simp add: decoded_def)
  have idx: "i < length vs"
    if "(k, entries) \<in> set (grouped (blend_entries 0 vs))" "(i, w) \<in> set entries"
    for k entries i w
  proof -
    from grouped_member [OF that(1)] have "entries = entries_for k (blend_entries 0 vs)"
      by simp
    with that(2) entries_for_subset [of k "blend_entries 0 vs"]
    obtain k' where "(k', i, w) \<in> set (blend_entries 0 vs)" by auto
    from blend_entries_index [OF this] show ?thesis by simp
  qed
  have grp: "\<forall>(k, entries) \<in> set (vertex_groups (decoded vs)).
             \<forall>(i, w) \<in> set entries. i < length (positions (decoded vs))"
    using idx unfolding pos by (auto simp: decoded_def)
  have nrm: "length (normals (decoded vs)) = length (positions (decoded vs))
      \<or> length (normals (decoded vs)) = 0"
    if lay: "has_layout layout vs"
    by (simp add: decoded_def filter_normal_layout [OF lay])
  have chan: "length xs = length vs \<and> (\<forall>i < length vs. map_of (vs ! i) k = Some (xs ! i))"
    if lay: "has_layout layout vs"
      and mem: "(k, xs) \<in> set (grouped (channel_entries sub vs))" for k xs sub
  proof -
    from grouped_member [OF mem] have k: "k \<in> fst ` set (channel_entries sub vs)"
      and xs: "xs = entries_for k (channel_entries sub vs)" by auto
    from channel_entries_layout [OF lay k] xs
    have eq: "xs = map (\<lambda>v. the (map_of v k)) vs" by simp
    from channel_entries_keys [OF k] obtain v0 where "v0 \<in> set vs" "k \<in> set (map fst v0)"
      by blast
    with lay have kl: "k \<in> set layout" by (auto simp: has_layout_def list_all_iff)
    have "map_of (vs ! i) k = Some (xs ! i)" if "i < length vs" for i
    proof -
      from that have "vs ! i \<in> set vs" by simp
      from hasattr_layout [OF lay this, of k] kl have "map_of (vs ! i) k \<noteq> None"
        by (simp add: hasattr_def)
      with that show ?thesis by (auto simp: eq)
    qed
    with eq show ?thesis by simp
  qed
  have chans: "\<forall>(k, xs) \<in> set (uv_map (decoded vs)) \<union> set (color_map (decoded vs)).
             length xs = length (positions (decoded vs))
             \<and> (\<forall>i < length vs. map_of (vs ! i) k = Some (xs ! i))"
    if lay: "has_layout layout vs"
    using chan [OF lay, of _ _ "''texcoord''"] chan [OF lay, of _ _ "''colour''"]
    unfolding pos by (auto simp: decoded_def)
  from dec pos grp nrm chans show ?thesis by blast
qed

theorem decoded_invariant_witness:
  "has_layout [''position'', ''normal'', ''blendweights'', ''blendindices'', ''texcoord0'']
     [[(''position'', FloatTuple [0, 0, 0]), (''normal'', FloatTuple [0, 0, 1]),
       (''blendweights'', IntTuple [255, 0, 0, 0]), (''blendindices'', IntTuple [2, 0, 0, 0]),
       (''texcoord0'', FloatTuple [0, 0])],
      [(''position'', FloatTuple [1, 0, 0]), (''normal'', FloatTuple [0, 0, 1]),
       (''blendweights'', IntTuple [128, 127, 0, 0]), (''blendindices'', IntTuple [2, 3, 0, 0]),
       (''texcoord0'', FloatTuple [1, 0])]]
   \<and> list_all vertex_ok
     [[(''position'', FloatTuple [0, 0, 0]), (''normal'', FloatTuple [0, 0, 1]),
       (''blendweights'', IntTuple [255, 0, 0, 0]), (''blendindices'', IntTuple [2, 0, 0, 0]),
       (''texcoord0'', FloatTuple [0, 0])],
      [(''position'', FloatTuple [1, 0, 0]), (''normal'', FloatTuple [0, 0, 1]),
       (''blendweights'', IntTuple [128, 127, 0, 0]), (''blendindices'', IntTuple [2, 3, 0, 0]),
       (''texcoord0'', FloatTuple [1, 0])]]
   \<and> (\<exists>vc. get_vertex_components
         [[(''position'', FloatTuple [0, 0, 0]), (''normal'', FloatTuple [0, 0, 1]),
           (''blendweights'', IntTuple [255, 0, 0, 0]), (''blendindices'', IntTuple [2, 0, 0, 0]),
           (''texcoord0'', FloatTuple [0, 0])],
          [(''position'', FloatTuple [1, 0, 0]), (''normal'', FloatTuple [0, 0, 1]),
           (''blendweights'', IntTuple [128, 127, 0, 0]), (''blendindices'', IntTuple [2, 3, 0, 0]),
           (''texcoord0'', FloatTuple [1, 0])]] = Inr vc
        \<and> length (positions vc) = 2
        \<and> (length (normals vc) = length (positions vc) \<or> length (normals vc) = 0)
        \<and> (\<forall>(k, xs) \<in> set (uv_map vc) \<union> set (color_map vc). length xs = length (positions vc))
        \<and> (\<forall>(k, entries) \<in> set (vertex_groups vc).
              \<forall>(i, w) \<in> set entries. i < length (positions vc)))"
proof -
  let ?vs = "[[(''position'', FloatTuple [0, 0, 0]), (''normal'', FloatTuple [0, 0, 1]),
       (''blendweights'', IntTuple [255, 0, 0, 0]), (''blendindices'', IntTuple [2, 0, 0, 0]),
       (''texcoord0'', FloatTuple [0, 0])],
      [(''position'', FloatTuple [1, 0, 0]), (''normal'', FloatTuple [0, 0, 1]),
       (''blendweights'', IntTuple [128, 127, 0, 0]), (''blendindices'', IntTuple [2, 3, 0, 0]),
       (''texcoord0'', FloatTuple [1, 0])]]"
  let ?layout = "[''position'', ''normal'', ''blendweights'', ''blendindices'', ''texcoord0'']"
  have l: "has_layout ?layout ?vs"
    by (simp add: has_layout_def)
  have h: "list_all vertex_ok ?vs"
    by (simp add: vertex_ok_def normal_ok_def blend_ok_def hasattr_def)
  from decoded_invariant [OF h, of ?layout] l obtain vc where
    "get_vertex_components ?vs = Inr vc"
    "length (positions vc) = length ?vs"
    "length (normals vc) = length (positions vc) \<or> length (normals vc) = 0"
    "\<forall>(k, xs) \<in> set (uv_map vc) \<union> set (color_map vc).
             length xs = length (positions vc)
             \<and> (\<forall>i < length ?vs. map_of (?vs ! i) k = Some (xs ! i))"
    "\<forall>(k, entries) \<in> set (vertex_groups vc).
             \<forall>(i, w) \<in> set entries. i < length (positions vc)"
    by blast
  then have "get_vertex_components ?vs = Inr vc
        \<and> length (positions vc) = 2
        \<and> (length (normals vc) = length (positions vc) \<or> length (normals vc) = 0)
        \<and> (\<forall>(k, xs) \<in> set (uv_map vc) \<union> set (color_map vc). length xs = length (positions vc))
        \<and> (\<forall>(k, entries) \<in> set (vertex_groups vc).
              \<forall>(i, w) \<in> set entries. i < length (positions vc))"
    by (intro conjI) (simp, simp, simp, fast, simp)
  then have "\<exists>vc. get_vertex_components ?vs = Inr vc
        \<and> length (positions vc) = 2
        \<and> (length (normals vc) = length (positions vc) \<or> length (normals vc) = 0)
        \<and> (\<forall>(k, xs) \<in> set (uv_map vc) \<union> set (color_map vc). length xs = length (positions vc))
        \<and> (\<forall>(k, entries) \<in> set (vertex_groups vc).
              \<forall>(i, w) \<in> set entries. i < length (positions vc))" ..
  with l h show ?thesis by (intro conjI)
qed

text \<open>
  C7. For the records of a buffer whose layout has the field \<open>normal\<close>, there is one
  normal for each vertex, normal \<open>i\<close> being the vector made of the field \<open>normal\<close>
  of vertex \<open>i\<close>; for a layout without it there are no normals.
\<close>

theorem normals_by_layout:
  "has_layout layout vs \<Longrightarrow> list_all vertex_ok vs \<Longrightarrow>
     \<exists>vc. get_vertex_components vs = Inr vc
       \<and> (''normal'' \<in> set layout \<longrightarrow>
            length (normals vc) = length vs
            \<and> (\<forall>i < length vs. \<exists>n. map_of (vs ! i) ''normal'' = Some n
                  \<and> Vector n = Inr (normals vc ! i)))
       \<and> (''normal'' \<notin> set layout \<longrightarrow> length (normals vc) = 0)"
proof -
  assume lay: "has_layout layout vs" and ok: "list_all vertex_ok vs"
  have dec: "get_vertex_components vs = Inr (decoded vs)"
    by (rule get_vertex_components_ok [OF ok])
  have nrm: "normals (decoded vs)
      = (if ''normal'' \<in> set layout then map (\<lambda>v. components (the (map_of v ''normal''))) vs else [])"
    by (simp add: decoded_def filter_normal_layout [OF lay])
  have ith: "\<exists>n. map_of (vs ! i) ''normal'' = Some n \<and> Vector n = Inr (normals (decoded vs) ! i)"
    if "''normal'' \<in> set layout" "i < length vs" for i
  proof -
    from that(2) have mem: "vs ! i \<in> set vs" by simp
    from hasattr_layout [OF lay this, of "''normal''"] that(1)
    obtain n where n: "map_of (vs ! i) ''normal'' = Some n" by (auto simp: hasattr_def)
    from ok mem have "normal_ok (vs ! i)" by (auto simp: list_all_iff vertex_ok_def)
    with n have "Vector n = Inr (components n)" by (simp add: normal_ok_def Vector_def)
    with n that show ?thesis by (simp add: nrm)
  qed
  from dec nrm ith show ?thesis by auto
qed

theorem normals_by_layout_witness:
  "has_layout [''position'', ''normal'']
     [[(''position'', FloatTuple [0, 0, 0]), (''normal'', FloatTuple [0, 0, 1])],
      [(''position'', FloatTuple [1, 0, 0]), (''normal'', FloatTuple [0, 1, 0])]]
   \<and> list_all vertex_ok
     [[(''position'', FloatTuple [0, 0, 0]), (''normal'', FloatTuple [0, 0, 1])],
      [(''position'', FloatTuple [1, 0, 0]), (''normal'', FloatTuple [0, 1, 0])]]
   \<and> ''normal'' \<in> set [''position'', ''normal'']
   \<and> (\<exists>vc. get_vertex_components
         [[(''position'', FloatTuple [0, 0, 0]), (''normal'', FloatTuple [0, 0, 1])],
          [(''position'', FloatTuple [1, 0, 0]), (''normal'', FloatTuple [0, 1, 0])]] = Inr vc
        \<and> length (normals vc) = 2)
   \<and> has_layout [''position''] [[(''position'', FloatTuple [0, 0, 0])]]
   \<and> list_all vertex_ok [[(''position'', FloatTuple [0, 0, 0])]]
   \<and> ''normal'' \<notin> set [''position'']
   \<and> (\<exists>vc. get_vertex_components [[(''position'', FloatTuple [0, 0, 0])]] = Inr vc
        \<and> length (normals vc) = 0)"
proof -
  let ?vs = "[[(''position'', FloatTuple [0, 0, 0]), (''normal'', FloatTuple [0, 0, 1])],
      [(''position'', FloatTuple [1, 0, 0]), (''normal'', FloatTuple [0, 1, 0])]]"
  let ?ws = "[[(''position'', FloatTuple [0, 0, 0])]]"
  have l1: "has_layout [''position'', ''normal''] ?vs" by (simp add: has_layout_def)
  have h1: "list_all vertex_ok ?vs" by (simp add: vertex_ok_def normal_ok_def hasattr_def)
  have n1: "''normal'' \<in> set [''position'', ''normal'']" by simp
  have l2: "has_layout [''position''] ?ws" by (simp add: has_layout_def)
  have h2: "list_all vertex_ok ?ws" by (simp add: vertex_ok_def normal_ok_def hasattr_def)
  have n2: "''normal'' \<notin> set [''position'']" by simp
  from normals_by_layout [OF l1 h1] n1
  have 1: "\<exists>vc. get_vertex_components ?vs = Inr vc \<and> length (normals vc) = 2" by auto
  from normals_by_layout [OF l2 h2] n2
  have 2: "\<exists>vc. get_vertex_components ?ws = Inr vc \<and> length (normals vc) = 0" by auto
  from l1 h1 n1 1 l2 h2 n2 2 show ?thesis by (intro conjI)
qed

section \<open>Index buffer to faces\<close>

lemma length_faces_of: "length (faces_of xs) = (length xs + 2) div 3"
  by (simp add: faces_of_def range3_def)

lemma faces_of_nth:
  "j < (length xs + 2) div 3 \<Longrightarrow> faces_of xs ! j = take 3 (drop (3 * j) xs)"
  by (simp add: faces_of_def range3_def slice_def)

lemma concat_take3: "concat (map (\<lambda>j. take 3 (drop (3 * j) xs)) [0 ..< m]) = take (3 * m) xs"
proof (induction m)
  case 0
  then show ?case by simp
next
  case (Suc m)
  have "take (3 * m) xs @ take 3 (drop (3 * m) xs) = take (3 * m + 3) xs"
    by (simp add: take_add)
  with Suc show ?case by (simp add: add.commute)
qed

lemma concat_faces_of: "concat (faces_of xs) = xs"
proof -
  have "concat (faces_of xs) = take (3 * ((length xs + 2) div 3)) xs"
    by (simp add: faces_of_def range3_def slice_def comp_def concat_take3)
  moreover have "length xs \<le> 3 * ((length xs + 2) div 3)" by presburger
  ultimately show ?thesis by simp
qed

lemma take3_drop:
  "n + 3 \<le> length xs \<Longrightarrow> take 3 (drop n xs) = [xs ! n, xs ! (n + 1), xs ! (n + 2)]"
proof -
  assume h: "n + 3 \<le> length xs"
  have "drop n xs = xs ! n # drop (Suc n) xs"
    using h by (simp add: Cons_nth_drop_Suc)
  moreover have "drop (Suc n) xs = xs ! Suc n # drop (Suc (Suc n)) xs"
    using h by (simp add: Cons_nth_drop_Suc)
  moreover have "drop (Suc (Suc n)) xs = xs ! Suc (Suc n) # drop (Suc (Suc (Suc n))) xs"
    using h by (simp add: Cons_nth_drop_Suc)
  ultimately show ?thesis by (simp add: numeral_3_eq_3)
qed

text \<open>
  C5. When the length of the index buffer is a multiple of 3, the reshaping yields exactly
  \<open>length / 3\<close> faces; face \<open>j\<close> is the triple of the indices at \<open>3j\<close>, \<open>3j + 1\<close>,
  \<open>3j + 2\<close>, so the faces are consecutive, do not overlap, keep the original order and
  together are the whole buffer. The decomposition succeeds: the reshaping is a list
  comprehension that cannot raise, and the decoder returns on the vertex records it
  accepts, whatever the index buffer holds.
\<close>

theorem faces_of_triples:
  "length (index_buffer cwxml) mod 3 = 0 \<Longrightarrow>
     length (faces_of (index_buffer cwxml)) = length (index_buffer cwxml) div 3
     \<and> (\<forall>j < length (index_buffer cwxml) div 3.
           faces_of (index_buffer cwxml) ! j
             = [index_buffer cwxml ! (3 * j), index_buffer cwxml ! (3 * j + 1),
                index_buffer cwxml ! (3 * j + 2)])
     \<and> concat (faces_of (index_buffer cwxml)) = index_buffer cwxml
     \<and> (list_all vertex_ok (vertex_buffer cwxml) \<longrightarrow>
           (\<exists>vc. get_vertex_components (vertex_buffer cwxml) = Inr vc))"
proof -
  define indices where "indices = index_buffer cwxml"
  assume "length (index_buffer cwxml) mod 3 = 0"
  then have m: "length indices mod 3 = 0" by (simp add: indices_def)
  have len: "(length indices + 2) div 3 = length indices div 3"
    using m by presburger
  have nth: "faces_of indices ! j
      = [indices ! (3 * j), indices ! (3 * j + 1), indices ! (3 * j + 2)]"
    if "j < length indices div 3" for j
  proof -
    have "3 * j + 3 \<le> length indices" using that m by presburger
    then show ?thesis
      using that by (simp add: faces_of_nth len take3_drop)
  qed
  have "length (faces_of indices) = length indices div 3"
    using length_faces_of [of indices] len by simp
  moreover have "list_all vertex_ok (vertex_buffer cwxml) \<longrightarrow>
           (\<exists>vc. get_vertex_components (vertex_buffer cwxml) = Inr vc)"
    by (simp add: get_vertex_components_ok)
  ultimately show ?thesis
    using nth unfolding indices_def [symmetric] by (simp add: concat_faces_of)
qed

theorem faces_of_triples_witness:
  "length (index_buffer \<lparr>vertex_buffer = [[(''position'', FloatTuple [0, 0, 0])]],
             index_buffer = [0, 1, 0, 2, 1, 3], shader_index = 0, bone_ids = []\<rparr>) mod 3 = 0
   \<and> list_all vertex_ok [[(''position'', FloatTuple [0, 0, 0])]]
   \<and> faces_of [0, 1, 0, 2, 1, 3 :: int] = [[0, 1, 0], [2, 1, 3]]
   \<and> length (faces_of [0, 1, 0, 2, 1, 3 :: int]) = 2
   \<and> (\<exists>vc. get_vertex_components [[(''position'', FloatTuple [0, 0, 0])]] = Inr vc)"
proof -
  let ?g = "\<lparr>vertex_buffer = [[(''position'', FloatTuple [0, 0, 0])]],
             index_buffer = [0, 1, 0, 2, 1, 3], shader_index = 0, bone_ids = []\<rparr>"
  have h: "length (index_buffer ?g) mod 3 = 0" by simp
  have v: "list_all vertex_ok [[(''position'', FloatTuple [0, 0, 0])]]"
    by (simp add: vertex_ok_def normal_ok_def hasattr_def)
  have f: "faces_of [0, 1, 0, 2, 1, 3 :: int] = [[0, 1, 0], [2, 1, 3]]"
    by (simp add: faces_of_def range3_def slice_def upt_rec)
  from faces_of_triples [OF h] v
  have "length (faces_of [0, 1, 0, 2, 1, 3 :: int]) = 2"
    and "\<exists>vc. get_vertex_components [[(''position'', FloatTuple [0, 0, 0])]] = Inr vc"
    by simp_all
  with h v f show ?thesis by simp
qed

text \<open>
  C1, as the code has it. When the length \<open>n\<close> of the index buffer is not a multiple
  of 3, the reshaping raises nothing: it yields \<open>n div 3\<close> full triples followed by one
  final chunk of the remaining \<open>n mod 3\<close> indices, in the original order.
\<close>

theorem faces_of_ragged:
  "length (index_buffer cwxml) mod 3 \<noteq> 0 \<Longrightarrow>
     length (faces_of (index_buffer cwxml)) = length (index_buffer cwxml) div 3 + 1
     \<and> (\<forall>j < length (index_buffer cwxml) div 3. length (faces_of (index_buffer cwxml) ! j) = 3)
     \<and> length (faces_of (index_buffer cwxml) ! (length (index_buffer cwxml) div 3))
         = length (index_buffer cwxml) mod 3
     \<and> concat (faces_of (index_buffer cwxml)) = index_buffer cwxml"
proof -
  define indices where "indices = index_buffer cwxml"
  assume "length (index_buffer cwxml) mod 3 \<noteq> 0"
  then have m: "length indices mod 3 \<noteq> 0" by (simp add: indices_def)
  have len: "(length indices + 2) div 3 = length indices div 3 + 1"
    using m by presburger
  have full: "length (faces_of indices ! j) = 3" if "j < length indices div 3" for j
  proof -
    have "3 * j + 3 \<le> length indices" using that by presburger
    then show ?thesis
      using that by (simp add: faces_of_nth len)
  qed
  have "faces_of indices ! (length indices div 3)
      = take 3 (drop (3 * (length indices div 3)) indices)"
    using faces_of_nth [of "length indices div 3" indices] len by simp
  then have "length (faces_of indices ! (length indices div 3))
      = min (length indices - 3 * (length indices div 3)) 3"
    by simp
  moreover have "length indices - 3 * (length indices div 3) = length indices mod 3"
    by presburger
  moreover have "length indices mod 3 < 3" by simp
  ultimately have lst: "length (faces_of indices ! (length indices div 3)) = length indices mod 3"
    by simp
  have "length (faces_of indices) = length indices div 3 + 1"
    using length_faces_of [of indices] len by simp
  then show ?thesis
    using full lst unfolding indices_def [symmetric] by (simp add: concat_faces_of)
qed

theorem faces_of_ragged_witness:
  "length (index_buffer \<lparr>vertex_buffer = [], index_buffer = [0, 1, 0, 1],
             shader_index = 0, bone_ids = []\<rparr>) mod 3 \<noteq> 0
   \<and> length (faces_of [0, 1, 0, 1 :: int]) = 2
   \<and> length (faces_of [0, 1, 0, 1 :: int] ! 1) = 1
   \<and> concat (faces_of [0, 1, 0, 1 :: int]) = [0, 1, 0, 1]"
proof -
  let ?g = "\<lparr>vertex_buffer = [], index_buffer = [0, 1, 0, 1], shader_index = 0, bone_ids = []\<rparr>"
  have h: "length (index_buffer ?g) mod 3 \<noteq> 0" by simp
  show ?thesis
    using h faces_of_ragged [OF h] by simp
qed

text \<open>
  C1 as stated fails: an index buffer of four indices is reshaped into a faces list, a
  triple and a final face of a single index, and nothing is raised.
\<close>

theorem faces_of_four_indices:
  "length (index_buffer \<lparr>vertex_buffer = [], index_buffer = [0, 1, 0, 1],
             shader_index = 0, bone_ids = []\<rparr>) mod 3 \<noteq> 0
   \<and> faces_of (index_buffer \<lparr>vertex_buffer = [], index_buffer = [0, 1, 0, 1],
             shader_index = 0, bone_ids = []\<rparr>) = [[0, 1, 0], [1]]"
  by (simp add: faces_of_def range3_def slice_def upt_rec)

section \<open>Material assignment\<close>

text \<open>
  C9. A shader index outside \<open>[0, len(materials))\<close> adds one warning to the operator's
  reports and leaves the mesh, and so its material list, as it was; the call returns
  normally. A shader index in range appends \<open>materials[shader_index]\<close> to the mesh's
  materials and reports nothing.
\<close>

theorem create_material_shader_index:
  "(\<not> (0 \<le> shader_index cwxml \<and> shader_index cwxml < int (length mats)) \<longrightarrow>
      (\<exists>msg. create_material cwxml mats (m, reports) = (m, reports @ [(WARNING, msg)])))
   \<and> (0 \<le> shader_index cwxml \<and> shader_index cwxml < int (length mats) \<longrightarrow>
      create_material cwxml mats (m, reports)
        = (m\<lparr>materials := materials m @ [mats ! nat (shader_index cwxml)]\<rparr>, reports))"
  by (simp add: create_material_def)

theorem create_material_shader_index_witness:
  "\<not> (0 \<le> shader_index \<lparr>vertex_buffer = [], index_buffer = [], shader_index = 5, bone_ids = []\<rparr>
        \<and> shader_index \<lparr>vertex_buffer = [], index_buffer = [], shader_index = 5, bone_ids = []\<rparr>
            < int (length [''steel'', ''glass'']))
   \<and> (\<exists>msg. create_material
         \<lparr>vertex_buffer = [], index_buffer = [], shader_index = 5, bone_ids = []\<rparr>
         [''steel'', ''glass''] (\<lparr>mesh_repr = ''mesh'', materials = [''paint'']\<rparr>, [])
       = (\<lparr>mesh_repr = ''mesh'', materials = [''paint'']\<rparr>, [(WARNING, msg)]))
   \<and> create_material
         \<lparr>vertex_buffer = [], index_buffer = [], shader_index = 5, bone_ids = []\<rparr>
         [''steel'', ''glass''] (\<lparr>mesh_repr = ''mesh'', materials = [''paint'']\<rparr>, [])
       = (\<lparr>mesh_repr = ''mesh'', materials = [''paint'']\<rparr>,
          [(WARNING, ''Material not set for mesh. Shader index of 5 not found!'')])
   \<and> 0 \<le> shader_index \<lparr>vertex_buffer = [], index_buffer = [], shader_index = 1, bone_ids = []\<rparr>
   \<and> shader_index \<lparr>vertex_buffer = [], index_buffer = [], shader_index = 1, bone_ids = []\<rparr>
       < int (length [''steel'', ''glass''])
   \<and> create_material
         \<lparr>vertex_buffer = [], index_buffer = [], shader_index = 1, bone_ids = []\<rparr>
         [''steel'', ''glass''] (\<lparr>mesh_repr = ''mesh'', materials = [''paint'']\<rparr>, [])
       = (\<lparr>mesh_repr = ''mesh'', materials = [''paint'', ''glass'']\<rparr>, [])"
proof -
  let ?m = "\<lparr>mesh_repr = ''mesh'', materials = [''paint'']\<rparr>"
  let ?g5 = "\<lparr>vertex_buffer = [], index_buffer = [], shader_index = 5, bone_ids = []\<rparr>"
  let ?g1 = "\<lparr>vertex_buffer = [], index_buffer = [], shader_index = 1, bone_ids = []\<rparr>"
  note t5 = create_material_shader_index [of ?g5 "[''steel'', ''glass'']" ?m "[]"]
  note t1 = create_material_shader_index [of ?g1 "[''steel'', ''glass'']" ?m "[]"]
  have a: "\<exists>msg. create_material ?g5 [''steel'', ''glass''] (?m, []) = (?m, [(WARNING, msg)])"
    using t5 by simp
  have a': "create_material ?g5 [''steel'', ''glass''] (?m, [])
      = (?m, [(WARNING, ''Material not set for mesh. Shader index of 5 not found!'')])"
    by (simp add: create_material_def str_int_def digit_char_def)
  have b: "create_material ?g1 [''steel'', ''glass''] (?m, [])
      = (?m\<lparr>materials := [''paint'', ''glass'']\<rparr>, [])"
    using t1 by simp
  from a a' b show ?thesis by simp
qed

section \<open>Vertex groups of the host object\<close>

lemma vertex_groups_loop_Inr:
  "vertex_groups_loop bones ids ks gs = Inr gs' \<longleftrightarrow>
     (\<forall>k \<in> set ks. \<exists>nm. bone_name_of bones ids k = Inr nm)
     \<and> gs' = gs @ map (\<lambda>k. \<lparr>group_name = projr (bone_name_of bones ids k), group_adds = []\<rparr>) ks"
proof (induction ks arbitrary: gs)
  case Nil
  then show ?case by auto
next
  case (Cons k ks)
  show ?case
  proof (cases "bone_name_of bones ids k")
    case (Inl e)
    then show ?thesis by simp
  next
    case (Inr nm)
    then show ?thesis by (simp add: Cons.IH)
  qed
qed

lemma bone_name_of_nonneg:
  "0 \<le> k \<Longrightarrow>
     bone_name_of bones ids k
       = Inr (if k < int (length bones) then name (bones ! nat k)
              else if k < int (length ids) then ''EXTERNAL_BONE.'' @ str_int k
              else ''UNKNOWN_BONE'')"
  by (auto simp: bone_name_of_def py_index_def)

lemma add_loop_ok:
  "i < length gs \<Longrightarrow>
     add_loop i es gs = Inr (gs[i := (gs ! i)\<lparr>group_adds := group_adds (gs ! i) @ es\<rparr>])"
proof (induction es arbitrary: gs)
  case Nil
  then show ?case by simp
next
  case (Cons e es)
  obtain vertex_index weight where e: "e = (vertex_index, weight)" by (cases e)
  let ?gs = "gs[i := (gs ! i)\<lparr>group_adds := group_adds (gs ! i) @ [(vertex_index, weight)]\<rparr>]"
  have "i < length ?gs" using Cons.prems by simp
  from Cons.IH [OF this] Cons.prems show ?case
    by (simp add: e subscript_def)
qed

lemma weights_loop_ok:
  "i + length vals \<le> length gs \<Longrightarrow>
     \<exists>gs'. weights_loop i vals gs = Inr gs' \<and> length gs' = length gs
       \<and> (\<forall>j < length gs. gs' ! j
             = (if i \<le> j \<and> j < i + length vals
                then (gs ! j)\<lparr>group_adds := group_adds (gs ! j) @ vals ! (j - i)\<rparr>
                else gs ! j))"
proof (induction vals arbitrary: i gs)
  case Nil
  then show ?case by auto
next
  case (Cons es vals)
  let ?gs = "gs[i := (gs ! i)\<lparr>group_adds := group_adds (gs ! i) @ es\<rparr>]"
  from Cons.prems have i: "i < length gs" by simp
  have step: "add_loop i es gs = Inr ?gs" by (rule add_loop_ok [OF i])
  from Cons.prems have "Suc i + length vals \<le> length ?gs" by simp
  from Cons.IH [OF this] obtain gs' where gs': "weights_loop (Suc i) vals ?gs = Inr gs'"
    and len: "length gs' = length gs"
    and nth: "\<forall>j < length gs. gs' ! j
             = (if Suc i \<le> j \<and> j < Suc i + length vals
                then (?gs ! j)\<lparr>group_adds := group_adds (?gs ! j) @ vals ! (j - Suc i)\<rparr>
                else ?gs ! j)"
    by auto
  have "gs' ! j = (if i \<le> j \<and> j < i + length (es # vals)
                then (gs ! j)\<lparr>group_adds := group_adds (gs ! j) @ (es # vals) ! (j - i)\<rparr>
                else gs ! j)" if j: "j < length gs" for j
  proof (cases "j = i")
    case True
    with nth j i show ?thesis by simp
  next
    case False
    with nth j show ?thesis by (auto simp: nth_Cons')
  qed
  with gs' len step show ?case by simp
qed

lemma zip_keys_values: "zip (dict_keys d) (dict_values d) = d"
  by (simp add: dict_keys_def dict_values_def zip_map_fst_snd)

lemma grouped_values_nth:
  "i < length (grouped es) \<Longrightarrow>
     dict_values (grouped es) ! i = entries_for (dict_keys (grouped es) ! i) es"
  by (simp add: grouped_def dict_values_def dict_keys_def comp_def)

lemma keys_grouped: "dict_keys (grouped es) = first_occurrences (map fst es)"
  by (simp add: grouped_def dict_keys_def comp_def)

lemma weights_after_groups:
  assumes "create_vertex_groups cwxml vc bones [] = Inr gs"
  shows "\<exists>gs'. set_geometry_weights vc gs = Inr gs'
       \<and> length gs' = length (dict_keys (vertex_groups vc))
       \<and> (\<forall>i < length gs'.
             bone_name_of bones (bone_ids cwxml) (dict_keys (vertex_groups vc) ! i)
               = Inr (group_name (gs' ! i))
             \<and> group_adds (gs' ! i) = dict_values (vertex_groups vc) ! i)"
proof -
  let ?ks = "dict_keys (vertex_groups vc)"
  let ?vals = "dict_values (vertex_groups vc)"
  let ?mk = "\<lambda>k. \<lparr>group_name = projr (bone_name_of bones (bone_ids cwxml) k), group_adds = []\<rparr>"
  from assms have nm: "\<forall>k \<in> set ?ks. \<exists>nm. bone_name_of bones (bone_ids cwxml) k = Inr nm"
    and gs: "gs = map ?mk ?ks"
    by (simp_all add: create_vertex_groups_def vertex_groups_loop_Inr)
  have len: "length ?vals = length ?ks" by (simp add: dict_keys_def dict_values_def)
  then have "0 + length ?vals \<le> length gs" by (simp add: gs)
  from weights_loop_ok [OF this] obtain gs' where gs': "weights_loop 0 ?vals gs = Inr gs'"
    and l: "length gs' = length gs"
    and nth: "\<forall>j < length gs. gs' ! j
             = (if 0 \<le> j \<and> j < 0 + length ?vals
                then (gs ! j)\<lparr>group_adds := group_adds (gs ! j) @ ?vals ! (j - 0)\<rparr>
                else gs ! j)"
    by blast
  have "bone_name_of bones (bone_ids cwxml) (?ks ! i) = Inr (group_name (gs' ! i))
        \<and> group_adds (gs' ! i) = ?vals ! i" if "i < length gs'" for i
  proof -
    from that l have i: "i < length ?ks" by (simp add: gs)
    then have "?ks ! i \<in> set ?ks" by simp
    with nm obtain n where n: "bone_name_of bones (bone_ids cwxml) (?ks ! i) = Inr n" by blast
    from nth i len have "gs' ! i = (gs ! i)\<lparr>group_adds := group_adds (gs ! i) @ ?vals ! i\<rparr>"
      by (simp add: gs)
    with i n show ?thesis by (simp add: gs)
  qed
  with gs' l show ?thesis
    by (simp add: set_geometry_weights_def gs)
qed

text \<open>
  C8, as the code has it. For non-negative bone indices, \<^verbatim>\<open>create_vertex_groups\<close>
  appends one group for each key of \<^verbatim>\<open>vertex_groups\<close>, in key order: named after
  \<open>bones[index]\<close> when the index is below the number of bones, else
  \<open>EXTERNAL_BONE.<index>\<close> when the index is below the length of the geometry's list of
  bone ids, else \<open>UNKNOWN_BONE\<close>.
\<close>

theorem create_vertex_groups_names:
  "\<forall>k \<in> set (dict_keys (vertex_groups vc)). 0 \<le> k \<Longrightarrow>
     create_vertex_groups cwxml vc bones gs
       = Inr (gs @ map (\<lambda>k. \<lparr>group_name =
                               (if k < int (length bones) then name (bones ! nat k)
                                else if k < int (length (bone_ids cwxml))
                                then ''EXTERNAL_BONE.'' @ str_int k
                                else ''UNKNOWN_BONE''),
                             group_adds = []\<rparr>)
                    (dict_keys (vertex_groups vc)))"
proof -
  assume nn: "\<forall>k \<in> set (dict_keys (vertex_groups vc)). 0 \<le> k"
  let ?ks = "dict_keys (vertex_groups vc)"
  have a: "\<forall>k \<in> set ?ks. \<exists>nm. bone_name_of bones (bone_ids cwxml) k = Inr nm"
    using nn by (simp add: bone_name_of_nonneg)
  have b: "map (\<lambda>k. \<lparr>group_name = projr (bone_name_of bones (bone_ids cwxml) k),
                      group_adds = []\<rparr>) ?ks
      = map (\<lambda>k. \<lparr>group_name =
                               (if k < int (length bones) then name (bones ! nat k)
                                else if k < int (length (bone_ids cwxml))
                                then ''EXTERNAL_BONE.'' @ str_int k
                                else ''UNKNOWN_BONE''),
                             group_adds = []\<rparr>) ?ks"
    using nn by (simp add: bone_name_of_nonneg)
  show ?thesis
    unfolding create_vertex_groups_def vertex_groups_loop_Inr
    using a b by simp
qed

theorem create_vertex_groups_names_witness:
  "list_all (\<lambda>k. 0 \<le> k) (dict_keys (vertex_groups
        \<lparr>positions = [FloatTuple [0, 0, 0]], normals = [], uv_map = [], color_map = [],
         vertex_groups = [(1, [(0, 1)]), (4, [(0, 0)]), (9, [(0, 0), (0, 0)])]\<rparr>))
   \<and> create_vertex_groups
        \<lparr>vertex_buffer = [], index_buffer = [], shader_index = 0, bone_ids = [7, 8, 9, 10, 11]\<rparr>
        \<lparr>positions = [FloatTuple [0, 0, 0]], normals = [], uv_map = [], color_map = [],
         vertex_groups = [(1, [(0, 1)]), (4, [(0, 0)]), (9, [(0, 0), (0, 0)])]\<rparr>
        [\<lparr>name = ''root''\<rparr>, \<lparr>name = ''spine''\<rparr>] []
      = Inr [\<lparr>group_name = ''spine'', group_adds = []\<rparr>,
             \<lparr>group_name = ''EXTERNAL_BONE.4'', group_adds = []\<rparr>,
             \<lparr>group_name = ''UNKNOWN_BONE'', group_adds = []\<rparr>]"
proof -
  let ?vc = "\<lparr>positions = [FloatTuple [0, 0, 0]], normals = [], uv_map = [], color_map = [],
         vertex_groups = [(1, [(0, 1)]), (4, [(0, 0)]), (9, [(0, 0), (0 :: nat, 0 :: rat)])]\<rparr>"
  have h: "\<forall>k \<in> set (dict_keys (vertex_groups ?vc)). 0 \<le> k"
    by (simp add: dict_keys_def)
  show ?thesis
    using h create_vertex_groups_names [OF h,
        of "\<lparr>vertex_buffer = [], index_buffer = [], shader_index = 0, bone_ids = [7, 8, 9, 10, 11]\<rparr>"
           "[\<lparr>name = ''root''\<rparr>, \<lparr>name = ''spine''\<rparr>]" "[]"]
    by (simp add: dict_keys_def str_int_def digit_char_def)
qed

text \<open>
  C8 as stated fails: with no bones and a list of two bone ids supplied, the group for
  bone index 5 is named \<open>UNKNOWN_BONE\<close>, not \<open>EXTERNAL_BONE.5\<close>.
\<close>

theorem external_bone_needs_index_in_range:
  "bone_ids \<lparr>vertex_buffer = [], index_buffer = [], shader_index = 0, bone_ids = [11, 12]\<rparr> \<noteq> []
   \<and> create_vertex_groups
        \<lparr>vertex_buffer = [], index_buffer = [], shader_index = 0, bone_ids = [11, 12]\<rparr>
        \<lparr>positions = [FloatTuple [0, 0, 0]], normals = [], uv_map = [], color_map = [],
         vertex_groups = [(5, [(0, 1)]), (0, [(0, 0), (0, 0), (0, 0)])]\<rparr>
        [] []
      = Inr [\<lparr>group_name = ''UNKNOWN_BONE'', group_adds = []\<rparr>,
             \<lparr>group_name = ''EXTERNAL_BONE.0'', group_adds = []\<rparr>]"
  by (simp add: create_vertex_groups_def dict_keys_def bone_name_of_def str_int_def
      digit_char_def)

text \<open>
  C10. The keys of \<^verbatim>\<open>vertex_groups\<close> are the bone indices in the order of their first
  occurrence, scanning the vertices in input order and the slots 0..3 of each; keys and
  values are the two projections of the same sequence of items, value \<open>i\<close> holding the
  entries of key \<open>i\<close>. Hence, on a fresh object, once \<^verbatim>\<open>create_vertex_groups\<close> has
  made the groups (it does for non-negative bone indices), \<^verbatim>\<open>set_geometry_weights\<close>
  returns, and group \<open>i\<close> has the name made for key \<open>i\<close> and received exactly the
  weights of value \<open>i\<close>.
\<close>

theorem vertex_groups_key_order:
  "list_all vertex_ok vs \<Longrightarrow>
     \<exists>vc. get_vertex_components vs = Inr vc
       \<and> dict_keys (vertex_groups vc) = first_occurrences (map fst (blend_entries 0 vs))
       \<and> zip (dict_keys (vertex_groups vc)) (dict_values (vertex_groups vc)) = vertex_groups vc
       \<and> (\<forall>i < length (vertex_groups vc).
             dict_values (vertex_groups vc) ! i
               = entries_for (dict_keys (vertex_groups vc) ! i) (blend_entries 0 vs))
       \<and> ((\<forall>k \<in> set (dict_keys (vertex_groups vc)). 0 \<le> k) \<longrightarrow>
             (\<exists>gs. create_vertex_groups cwxml vc bones [] = Inr gs))
       \<and> (\<forall>gs. create_vertex_groups cwxml vc bones [] = Inr gs \<longrightarrow>
             (\<exists>gs'. set_geometry_weights vc gs = Inr gs'
                \<and> length gs' = length (dict_keys (vertex_groups vc))
                \<and> (\<forall>i < length gs'.
                      bone_name_of bones (bone_ids cwxml) (dict_keys (vertex_groups vc) ! i)
                        = Inr (group_name (gs' ! i))
                      \<and> group_adds (gs' ! i) = dict_values (vertex_groups vc) ! i)))"
proof -
  assume ok: "list_all vertex_ok vs"
  let ?vc = "decoded vs"
  have dec: "get_vertex_components vs = Inr ?vc"
    by (rule get_vertex_components_ok [OF ok])
  have grp: "vertex_groups ?vc = grouped (blend_entries 0 vs)"
    by (simp add: decoded_def)
  have keys: "dict_keys (vertex_groups ?vc) = first_occurrences (map fst (blend_entries 0 vs))"
    by (simp add: grp keys_grouped)
  have vals: "\<forall>i < length (vertex_groups ?vc).
             dict_values (vertex_groups ?vc) ! i
               = entries_for (dict_keys (vertex_groups ?vc) ! i) (blend_entries 0 vs)"
    by (simp add: grp grouped_values_nth)
  have mk: "(\<forall>k \<in> set (dict_keys (vertex_groups ?vc)). 0 \<le> k) \<longrightarrow>
             (\<exists>gs. create_vertex_groups cwxml ?vc bones [] = Inr gs)"
    by (simp add: create_vertex_groups_def vertex_groups_loop_Inr bone_name_of_nonneg)
  have wt: "\<forall>gs. create_vertex_groups cwxml ?vc bones [] = Inr gs \<longrightarrow>
             (\<exists>gs'. set_geometry_weights ?vc gs = Inr gs'
                \<and> length gs' = length (dict_keys (vertex_groups ?vc))
                \<and> (\<forall>i < length gs'.
                      bone_name_of bones (bone_ids cwxml) (dict_keys (vertex_groups ?vc) ! i)
                        = Inr (group_name (gs' ! i))
                      \<and> group_adds (gs' ! i) = dict_values (vertex_groups ?vc) ! i))"
    using weights_after_groups [of cwxml ?vc bones] by blast
  from dec keys vals mk wt zip_keys_values [of "vertex_groups ?vc"] show ?thesis
    by blast
qed

theorem vertex_groups_key_order_witness:
  "list_all vertex_ok
     [[(''position'', FloatTuple [0, 0, 0]), (''blendweights'', IntTuple [255, 0, 0, 0]),
       (''blendindices'', IntTuple [2, 0, 0, 0])],
      [(''position'', FloatTuple [1, 0, 0]), (''blendweights'', IntTuple [128, 127, 0, 0]),
       (''blendindices'', IntTuple [2, 3, 0, 0])]]
   \<and> (\<exists>vc. get_vertex_components
         [[(''position'', FloatTuple [0, 0, 0]), (''blendweights'', IntTuple [255, 0, 0, 0]),
           (''blendindices'', IntTuple [2, 0, 0, 0])],
          [(''position'', FloatTuple [1, 0, 0]), (''blendweights'', IntTuple [128, 127, 0, 0]),
           (''blendindices'', IntTuple [2, 3, 0, 0])]] = Inr vc
        \<and> dict_keys (vertex_groups vc) = [2, 0, 3]
        \<and> (\<forall>k \<in> set (dict_keys (vertex_groups vc)). 0 \<le> k)
        \<and> (\<exists>gs gs'.
              create_vertex_groups
                \<lparr>vertex_buffer = [], index_buffer = [], shader_index = 0, bone_ids = []\<rparr>
                vc [\<lparr>name = ''root''\<rparr>, \<lparr>name = ''spine''\<rparr>, \<lparr>name = ''head''\<rparr>] [] = Inr gs
              \<and> set_geometry_weights vc gs = Inr gs'
              \<and> length gs' = 3
              \<and> group_name (gs' ! 0) = ''head''
              \<and> group_adds (gs' ! 0) = [(0, 1), (1, 128 / 255)]
              \<and> group_name (gs' ! 1) = ''root''
              \<and> group_adds (gs' ! 1) = [(0, 0), (0, 0), (0, 0), (1, 0), (1, 0)]
              \<and> group_name (gs' ! 2) = ''UNKNOWN_BONE''
              \<and> group_adds (gs' ! 2) = [(1, 127 / 255)]))"
proof -
  let ?vs = "[[(''position'', FloatTuple [0, 0, 0]), (''blendweights'', IntTuple [255, 0, 0, 0]),
       (''blendindices'', IntTuple [2, 0, 0, 0])],
      [(''position'', FloatTuple [1, 0, 0]), (''blendweights'', IntTuple [128, 127, 0, 0]),
       (''blendindices'', IntTuple [2, 3, 0, 0])]]"
  let ?cw = "\<lparr>vertex_buffer = [], index_buffer = [], shader_index = 0, bone_ids = []\<rparr>"
  let ?bones = "[\<lparr>name = ''root''\<rparr>, \<lparr>name = ''spine''\<rparr>, \<lparr>name = ''head''\<rparr>]"
  have h: "list_all vertex_ok ?vs"
    by (simp add: vertex_ok_def normal_ok_def blend_ok_def hasattr_def)
  have e: "blend_entries 0 ?vs
      = [(2, 0, 1), (0, 0, 0), (0, 0, 0), (0, 0, 0),
         (2, 1, 128 / 255), (3, 1, 127 / 255), (0, 1, 0), (0, 1, 0)]"
    by (simp add: slot_entries_def)
  from vertex_groups_key_order [OF h, of ?cw ?bones] obtain vc where
    dec: "get_vertex_components ?vs = Inr vc"
    and keys: "dict_keys (vertex_groups vc) = first_occurrences (map fst (blend_entries 0 ?vs))"
    and vals: "\<forall>i < length (vertex_groups vc).
             dict_values (vertex_groups vc) ! i
               = entries_for (dict_keys (vertex_groups vc) ! i) (blend_entries 0 ?vs)"
    and mk: "(\<forall>k \<in> set (dict_keys (vertex_groups vc)). 0 \<le> k) \<longrightarrow>
             (\<exists>gs. create_vertex_groups ?cw vc ?bones [] = Inr gs)"
    and wt: "\<forall>gs. create_vertex_groups ?cw vc ?bones [] = Inr gs \<longrightarrow>
             (\<exists>gs'. set_geometry_weights vc gs = Inr gs'
                \<and> length gs' = length (dict_keys (vertex_groups vc))
                \<and> (\<forall>i < length gs'.
                      bone_name_of ?bones (bone_ids ?cw) (dict_keys (vertex_groups vc) ! i)
                        = Inr (group_name (gs' ! i))
                      \<and> group_adds (gs' ! i) = dict_values (vertex_groups vc) ! i))"
    by blast
  have k: "dict_keys (vertex_groups vc) = [2, 0, 3]"
    unfolding keys e by simp
  then have len: "length (vertex_groups vc) = 3"
    by (metis dict_keys_def length_map length_Cons list.size(3) numeral_3_eq_3)
  have nn: "\<forall>k \<in> set (dict_keys (vertex_groups vc)). 0 \<le> k"
    by (simp add: k)
  with mk obtain gs where gs: "create_vertex_groups ?cw vc ?bones [] = Inr gs" by blast
  with wt obtain gs' where gs': "set_geometry_weights vc gs = Inr gs'"
    and l: "length gs' = length (dict_keys (vertex_groups vc))"
    and nth: "\<forall>i < length gs'.
                bone_name_of ?bones (bone_ids ?cw) (dict_keys (vertex_groups vc) ! i)
                  = Inr (group_name (gs' ! i))
                \<and> group_adds (gs' ! i) = dict_values (vertex_groups vc) ! i"
    by blast
  from l k have l3: "length gs' = 3" by simp
  note vals' = vals [unfolded e k len]
  have v0: "dict_values (vertex_groups vc) ! 0 = [(0, 1), (1, 128 / 255)]"
    using vals' by (simp add: entries_for_def)
  have v1: "dict_values (vertex_groups vc) ! 1 = [(0, 0), (0, 0), (0, 0), (1, 0), (1, 0)]"
    using vals' by (simp add: entries_for_def)
  have v2: "dict_values (vertex_groups vc) ! 2 = [(1, 127 / 255)]"
    using vals' by (simp add: entries_for_def)
  have g0: "group_name (gs' ! 0) = ''head''" "group_adds (gs' ! 0) = [(0, 1), (1, 128 / 255)]"
    using nth [rule_format, of 0] l3 v0 by (simp_all add: k bone_name_of_def py_index_def)
  have g1: "group_name (gs' ! 1) = ''root''"
    "group_adds (gs' ! 1) = [(0, 0), (0, 0), (0, 0), (1, 0), (1, 0)]"
    using nth [rule_format, of 1] l3 v1 by (simp_all add: k bone_name_of_def py_index_def)
  have g2: "group_name (gs' ! 2) = ''UNKNOWN_BONE''" "group_adds (gs' ! 2) = [(1, 127 / 255)]"
    using nth [rule_format, of 2] l3 v2 by (simp_all add: k bone_name_of_def py_index_def)
  from h dec k nn gs gs' l3 g0 g1 g2 show ?thesis by blast
qed

end
